theory Spec2Isabelle
  imports Complex_Main "HOL-Library.Word" "HOL-Library.Sublist" "HOL-Library.Log_Nat"
begin

unbundle bit_operations_syntax

section \<open>Base Bonsai: the embedding of src/src/App.tsx\<close>

text \<open>
  Conventions of the embedding.
  \<^item> A JavaScript string is a \<open>string\<close>: a list of code units, each an Isabelle
    \<open>char\<close>, so the strings covered are those over U+0000 .. U+00FF. Every string the
    program builds itself (selectors, hex words, addresses, action tags) is of that kind.
  \<^item> A finite JavaScript number is a \<open>rat\<close> (an \<open>int\<close> where the source only ever
    holds an integer), that is, the exact value of the double. The values that are not
    finite numbers are constructors of \<open>jsnum\<close>. Arithmetic on doubles that rounds is
    written with its exact value, except in \<open>mulberry32\<close>, where the rounding of the
    state is written out, in the hue of \<open>graft\<close>, where the quotient and the product
    are rounded with \<open>toDouble\<close> before \<open>Math.floor\<close>, and in the growth after
    \<open>water\<close>.
  \<^item> A thrown \<open>Error\<close> is \<open>Inl\<close> of a sum type; a normal return is \<open>Inr\<close>.
\<close>

subsection \<open>Strings and hexadecimal text\<close>

datatype error = Error string

definition startsWith :: "string \<Rightarrow> string \<Rightarrow> bool" where
  "startsWith s p = (take (length p) s = p)"

definition padStart :: "nat \<Rightarrow> char \<Rightarrow> string \<Rightarrow> string" where
  "padStart n c s = replicate (n - length s) c @ s"

definition padEnd :: "nat \<Rightarrow> char \<Rightarrow> string \<Rightarrow> string" where
  "padEnd n c s = s @ replicate (n - length s) c"

definition hexDigit :: "int \<Rightarrow> char" where
  "hexDigit d = (''0123456789abcdef'' ! nat d)"

text \<open>\<open>Number.prototype.toString(16)\<close> and \<open>BigInt.prototype.toString(16)\<close> on an
  integer: lower-case digits, no leading zero, \<open>"0"\<close> for zero, a minus sign before the
  digits of a negative value.\<close>

function toString16 :: "int \<Rightarrow> string" where
  "toString16 n =
    (if n < 0 then CHR ''-'' # toString16 (- n)
     else if n < 16 then [hexDigit n]
     else toString16 (n div 16) @ [hexDigit (n mod 16)])"
  by pat_completeness auto
termination
  by (relation "measure (\<lambda>n. if n < 0 then nat (- n) + 1 else nat n)") auto

declare toString16.simps [simp del]

definition isHexChar :: "char \<Rightarrow> bool" where
  "isHexChar c = (let n = of_char c :: int in
     (48 \<le> n \<and> n \<le> 57) \<or> (65 \<le> n \<and> n \<le> 70) \<or> (97 \<le> n \<and> n \<le> 102))"

definition hexCharValue :: "char \<Rightarrow> int" where
  "hexCharValue c = (let n = of_char c :: int in
     if 48 \<le> n \<and> n \<le> 57 then n - 48
     else if 65 \<le> n \<and> n \<le> 70 then n - 55
     else n - 87)"

definition hexValue :: "string \<Rightarrow> int" where
  "hexValue s = foldl (\<lambda>acc c. 16 * acc + hexCharValue c) 0 s"

text \<open>\<open>String.prototype.toLowerCase\<close> on U+0000 .. U+00FF: A-Z and the Latin-1 capitals
  (U+00C0 .. U+00DE without the multiplication sign U+00D7) move up by 32.\<close>

definition lowerChar :: "char \<Rightarrow> char" where
  "lowerChar c = (let n = of_char c :: int in
     if (65 \<le> n \<and> n \<le> 90) \<or> (192 \<le> n \<and> n \<le> 222 \<and> n \<noteq> 215) then char_of (n + 32) else c)"

definition toLowerCase :: "string \<Rightarrow> string" where
  "toLowerCase s = map lowerChar s"

text \<open>White space and line terminators of ECMAScript that lie in U+0000 .. U+00FF: what
  \<open>trim\<close> removes and \<open>parseInt\<close> skips.\<close>

definition isWhiteSpace :: "char \<Rightarrow> bool" where
  "isWhiteSpace c = (of_char c \<in> {9, 10, 11, 12, 13, 32, 160 :: int})"

definition trim :: "string \<Rightarrow> string" where
  "trim s = rev (dropWhile isWhiteSpace (rev (dropWhile isWhiteSpace s)))"

text \<open>\<open>TextEncoder.encode\<close>: the UTF-8 bytes of a string over U+0000 .. U+00FF (one byte
  below U+0080, two bytes from there on).\<close>

definition utf8Bytes :: "string \<Rightarrow> int list" where
  "utf8Bytes s = concat (map (\<lambda>c. let n = of_char c :: int in
     if n < 128 then [n] else [192 + n div 64, 128 + n mod 64]) s)"

definition utf8ToHex :: "string \<Rightarrow> string" where
  "utf8ToHex str = ''0x'' @ concat (map (\<lambda>b. padStart 2 (CHR ''0'') (toString16 b)) (utf8Bytes str))"

definition padRightTo32Bytes :: "string \<Rightarrow> string" where
  "padRightTo32Bytes hexNoPrefix = padEnd 64 (CHR ''0'') hexNoPrefix"

definition padLeftTo32Bytes :: "string \<Rightarrow> string" where
  "padLeftTo32Bytes hexNoPrefix = padStart 64 (CHR ''0'') hexNoPrefix"

definition strip0x :: "string \<Rightarrow> string" where
  "strip0x hex = (if startsWith hex ''0x'' then drop 2 hex else hex)"

subsection \<open>Action encoder\<close>

text \<open>\<open>encodeLogAction(action, dataHex = "0x")\<close>. The optional argument is an \<open>option\<close>:
  \<open>None\<close> is the call without it, which takes the default. \<open>dataHex || "0x"\<close> also
  replaces the empty string.\<close>

definition encodeLogAction :: "string \<Rightarrow> string option \<Rightarrow> error + string" where
  "encodeLogAction action dataHexArg =
    (let dataHex = (case dataHexArg of None \<Rightarrow> ''0x'' | Some d \<Rightarrow> d);
         selector = ''2d9bc1fb'';
         actionHex = strip0x (utf8ToHex action);
         actionWord = padRightTo32Bytes actionHex;
         offsetWord = padLeftTo32Bytes ''40'';
         data = strip0x (if dataHex = [] then ''0x'' else dataHex)
     in if length data mod 2 \<noteq> 0 then Inl (Error ''Invalid data hex (odd length).'')
        else
          let dataLen = length data div 2;
              lenWord = padLeftTo32Bytes (toString16 (int dataLen));
              paddedData = padEnd (((dataLen + 31) div 32) * 64) (CHR ''0'') data
          in Inr (''0x'' @ selector @ actionWord @ offsetWord @ lenWord @ paddedData))"

text \<open>\<open>isLikelyAddress\<close>: the regular expression \<open>/^0x[a-fA-F0-9]{40}$/\<close> (no flags, so
  \<open>$\<close> is the end of the input).\<close>

definition isLikelyAddress :: "string \<Rightarrow> bool" where
  "isLikelyAddress addr = (length addr = 42 \<and> take 2 addr = ''0x'' \<and> list_all isHexChar (drop 2 addr))"

definition bytes32Pad :: "string \<Rightarrow> string" where
  "bytes32Pad hexNo0x = padStart 64 (CHR ''0'') hexNo0x"

text \<open>\<open>encodeUsdcTransfer(to, amountBaseUnits)\<close>; the amount is a \<open>bigint\<close>, an \<open>int\<close>
  here. \<open>to.toLowerCase().replace(/^0x/, "")\<close> is \<open>strip0x\<close> of the lower-cased text.\<close>

definition encodeUsdcTransfer :: "string \<Rightarrow> int \<Rightarrow> error + string" where
  "encodeUsdcTransfer to amountBaseUnits =
    (if \<not> isLikelyAddress to then Inl (Error ''Invalid recipient address.'')
     else if amountBaseUnits \<le> 0 then Inl (Error ''Amount must be greater than 0.'')
     else
       let selector = ''a9059cbb'';
           toNo0x = strip0x (toLowerCase to);
           toPadded = bytes32Pad toNo0x;
           amtHex = toString16 amountBaseUnits;
           amtPadded = bytes32Pad amtHex
       in Inr (''0x'' @ selector @ toPadded @ amtPadded))"

subsection \<open>Numbers that are not finite\<close>

text \<open>The values of a JavaScript number: a finite value (exact, as a rational), an
  infinity, or NaN.\<close>

datatype jsnum = Num rat | Infinity | NegInfinity | NaN

text \<open>The remainder operator \<open>%\<close> on finite numbers: the result takes the sign of the
  dividend (the quotient is truncated towards zero), and it is exact on doubles.\<close>

definition jsTrunc :: "rat \<Rightarrow> int" where
  "jsTrunc q = (if 0 \<le> q then \<lfloor>q\<rfloor> else \<lceil>q\<rceil>)"

definition jsRem :: "rat \<Rightarrow> rat \<Rightarrow> rat" where
  "jsRem x m = x - m * of_int (jsTrunc (x / m))"

text \<open>Rounding to a double. \<open>bitLength n\<close> is the number of binary digits of a positive
  integer. \<open>roundHalfEven\<close> rounds to the nearest integer, a tie to the even one.
  \<open>toDouble x\<close> is the double nearest to \<open>x\<close>, a tie to the even significand: \<open>ulp\<close> is
  the distance between the doubles around \<open>x\<close>, so that \<open>x / ulp\<close> lies between \<open>2 ^ 52\<close>
  and \<open>2 ^ 53\<close>. It is the rounding of doubles in their normal range, which the values
  rounded with it here (between \<open>10\<^sup>-\<^sup>6\<close> and 360, and 0; and a growth plus 1) are
  in.\<close>

function bitLength :: "int \<Rightarrow> nat" where
  "bitLength n = (if n \<le> 0 then 0 else Suc (bitLength (n div 2)))"
  by pat_completeness auto
termination
  by (relation "measure nat") auto

declare bitLength.simps [simp del]

definition roundHalfEven :: "rat \<Rightarrow> int" where
  "roundHalfEven m =
    (let f = \<lfloor>m\<rfloor>;
         d = m - of_int f
     in if d < 1 / 2 then f
        else if 1 / 2 < d then f + 1
        else if even f then f else f + 1)"

definition toDouble :: "rat \<Rightarrow> rat" where
  "toDouble x =
    (if x = 0 then 0
     else
       let (a, b) = quotient_of \<bar>x\<bar>;
           ulp0 = 2 ^ bitLength a / 2 ^ (bitLength b + 53);
           ulp = (if 2 ^ 53 \<le> \<bar>x\<bar> / ulp0 then 2 * ulp0 else ulp0)
       in sgn x * (of_int (roundHalfEven (\<bar>x\<bar> / ulp)) * ulp))"

text \<open>\<open>parseInt(s, 16)\<close>: skip leading white space, take a sign, skip one \<open>0x\<close> or
  \<open>0X\<close>, read the longest run of hexadecimal digits; NaN when that run is empty.\<close>

definition parseInt16 :: "string \<Rightarrow> jsnum" where
  "parseInt16 s =
    (let s1 = dropWhile isWhiteSpace s;
         sign = (if startsWith s1 ''-'' then - 1 else 1 :: int);
         s2 = (if startsWith s1 ''-'' \<or> startsWith s1 ''+'' then drop 1 s1 else s1);
         s3 = (if startsWith s2 ''0x'' \<or> startsWith s2 ''0X'' then drop 2 s2 else s2);
         z = takeWhile isHexChar s3
     in if z = [] then NaN else Num (of_int (sign * hexValue z)))"

subsection \<open>Seed derivation\<close>

text \<open>\<open>hashToUnitFloat(hex)\<close>: \<open>hex.replace(/^0x/, "")\<close>, then \<open>slice(0, 12)\<close>, then
  \<open>parseInt(chunk || "0", 16)\<close>, then \<open>(n % 1000000) / 1000000\<close>. NaN and infinity
  stay NaN through \<open>%\<close> and \<open>/\<close>.\<close>

definition hashToUnitFloat :: "string \<Rightarrow> jsnum" where
  "hashToUnitFloat hex =
    (let clean = strip0x hex;
         chunk = take 12 clean;
         n = parseInt16 (if chunk = [] then ''0'' else chunk)
     in case n of
          Num q \<Rightarrow> Num (jsRem q 1000000 / 1000000)
        | Infinity \<Rightarrow> NaN
        | NegInfinity \<Rightarrow> NaN
        | NaN \<Rightarrow> NaN)"

text \<open>The reading of the specification's sentence for \<open>seedFromIdentifier\<close>, kept apart
  from the code's function to compare the two: the \<open>k\<close> low-order (last) hexadecimal
  digits of the identifier, as an integer, modulo one million, divided by one million.\<close>

definition seedFromLowOrderDigits :: "nat \<Rightarrow> string \<Rightarrow> rat" where
  "seedFromLowOrderDigits k ident =
    (let clean = strip0x ident;
         low = drop (length clean - k) clean
     in of_int (hexValue low mod 1000000) / 1000000)"

text \<open>\<open>clamp(n, a, b)\<close>.\<close>

definition clamp :: "'a::linorder \<Rightarrow> 'a \<Rightarrow> 'a \<Rightarrow> 'a" where
  "clamp n a b = max a (min b n)"

subsection \<open>Game state and its persistence\<close>

text \<open>\<open>LocalState\<close>. A field of type \<open>number\<close> is a \<open>jsnum\<close>: what \<open>loadState\<close> reads from
  the store can be infinite. An optional field is an \<open>option\<close>, \<open>None\<close> for
  \<open>undefined\<close>.\<close>

record LocalState =
  plantedAt :: "jsnum option"
  growth :: jsnum
  lastWateredAt :: "jsnum option"
  missedStreak :: jsnum
  revivedAt :: "jsnum option"
  lastGraftedAt :: "jsnum option"

definition zeroState :: LocalState where
  "zeroState = \<lparr>plantedAt = None, growth = Num 0, lastWateredAt = None, missedStreak = Num 0,
                 revivedAt = None, lastGraftedAt = None\<rparr>"

text \<open>The tests of JavaScript on a number: \<open>n\<close> as a condition (false for 0 and NaN),
  \<open>n >= c\<close> and \<open>n < c\<close> for a finite \<open>c\<close>, and \<open>n || d\<close>.\<close>

definition truthy :: "jsnum \<Rightarrow> bool" where
  "truthy n = (case n of Num q \<Rightarrow> q \<noteq> 0 | Infinity \<Rightarrow> True | NegInfinity \<Rightarrow> True | NaN \<Rightarrow> False)"

definition jsGe :: "jsnum \<Rightarrow> rat \<Rightarrow> bool" where
  "jsGe n c = (case n of Num q \<Rightarrow> c \<le> q | Infinity \<Rightarrow> True | NegInfinity \<Rightarrow> False | NaN \<Rightarrow> False)"

definition jsLt :: "jsnum \<Rightarrow> rat \<Rightarrow> bool" where
  "jsLt n c = (case n of Num q \<Rightarrow> q < c | Infinity \<Rightarrow> False | NegInfinity \<Rightarrow> True | NaN \<Rightarrow> False)"

definition orElse :: "jsnum \<Rightarrow> jsnum \<Rightarrow> jsnum" where
  "orElse n d = (if truthy n then n else d)"

text \<open>What \<open>JSON.parse\<close> can return. A number is finite, or infinite when the literal
  is beyond the doubles (\<open>1e400\<close>). An object is its list of members in the order of
  the text; of two members with the same key the later one counts. A stored item is a
  text that \<open>JSON.parse\<close> rejects (the empty text among them) or the value it returns;
  \<open>localStorage\<close> maps a key to an item, \<open>None\<close> where \<open>getItem\<close> returns \<open>null\<close>.\<close>

datatype json =
    JNull | JBool bool | JNum jsnum | JStr string | JArr "json list" | JObj "(string \<times> json) list"

datatype item = Unparsable | Parsed json

type_synonym localStorage = "string \<Rightarrow> item option"

definition lsKey :: "string \<Rightarrow> string" where
  "lsKey addr = ''basebonsai:v1:'' @ toLowerCase addr"

text \<open>\<open>typeof j.k === "number" ? j.k : undefined\<close> for a value \<open>j\<close> that is not \<open>null\<close>:
  a property of that name exists on objects only.\<close>

definition numberField :: "json \<Rightarrow> string \<Rightarrow> jsnum option" where
  "numberField j k =
    (case j of
       JObj members \<Rightarrow> (case map_of (rev members) k of Some (JNum n) \<Rightarrow> Some n | _ \<Rightarrow> None)
     | _ \<Rightarrow> None)"

text \<open>\<open>loadState(addr)\<close>. The \<open>catch\<close> branch is taken when \<open>JSON.parse\<close> throws and when
  the value is \<open>null\<close> (reading a property of \<open>null\<close> throws).\<close>

definition loadState :: "string \<Rightarrow> localStorage \<Rightarrow> LocalState" where
  "loadState addr store =
    (case store (lsKey addr) of
       None \<Rightarrow> zeroState
     | Some Unparsable \<Rightarrow> zeroState
     | Some (Parsed JNull) \<Rightarrow> zeroState
     | Some (Parsed j) \<Rightarrow>
         \<lparr>plantedAt = numberField j ''plantedAt'',
          growth = (case numberField j ''growth'' of Some n \<Rightarrow> n | None \<Rightarrow> Num 0),
          lastWateredAt = numberField j ''lastWateredAt'',
          missedStreak = (case numberField j ''missedStreak'' of Some n \<Rightarrow> n | None \<Rightarrow> Num 0),
          revivedAt = numberField j ''revivedAt'',
          lastGraftedAt = numberField j ''lastGraftedAt''\<rparr>)"

text \<open>\<open>JSON.stringify(st)\<close>, read back by \<open>JSON.parse\<close>: a finite number is written as
  it is, an infinite one and NaN as \<open>null\<close>, and an undefined member is left out.\<close>

definition jsonOfNumber :: "jsnum \<Rightarrow> json" where
  "jsonOfNumber n = (case n of Num q \<Rightarrow> JNum (Num q) | Infinity \<Rightarrow> JNull | NegInfinity \<Rightarrow> JNull | NaN \<Rightarrow> JNull)"

definition optionalMember :: "string \<Rightarrow> jsnum option \<Rightarrow> (string \<times> json) list" where
  "optionalMember k v = (case v of None \<Rightarrow> [] | Some n \<Rightarrow> [(k, jsonOfNumber n)])"

definition stringify :: "LocalState \<Rightarrow> json" where
  "stringify st = JObj
     (optionalMember ''plantedAt'' (plantedAt st)
      @ [(''growth'', jsonOfNumber (growth st))]
      @ optionalMember ''lastWateredAt'' (lastWateredAt st)
      @ [(''missedStreak'', jsonOfNumber (missedStreak st))]
      @ optionalMember ''revivedAt'' (revivedAt st)
      @ optionalMember ''lastGraftedAt'' (lastGraftedAt st))"

definition saveState :: "string \<Rightarrow> LocalState \<Rightarrow> localStorage \<Rightarrow> localStorage" where
  "saveState addr st store = store(lsKey addr \<mapsto> Parsed (stringify st))"

text \<open>\<open>hoursSince(ts)\<close> and \<open>daysSince(ts)\<close>: \<open>!ts\<close> holds for \<open>undefined\<close>, 0 and NaN.
  \<open>now\<close> is the value \<open>nowMs()\<close> returns at the call, a finite number; a finite number
  minus an infinite one is the opposite infinity.\<close>

definition hoursSince :: "rat \<Rightarrow> jsnum option \<Rightarrow> jsnum" where
  "hoursSince now ts =
    (case ts of
       None \<Rightarrow> Infinity
     | Some n \<Rightarrow>
         if \<not> truthy n then Infinity
         else (case n of
                 Num t \<Rightarrow> Num ((now - t) / 3600000)
               | Infinity \<Rightarrow> NegInfinity
               | NegInfinity \<Rightarrow> Infinity
               | NaN \<Rightarrow> NaN))"

definition daysSince :: "rat \<Rightarrow> jsnum option \<Rightarrow> jsnum" where
  "daysSince now ts =
    (case ts of
       None \<Rightarrow> Infinity
     | Some n \<Rightarrow>
         if \<not> truthy n then Infinity
         else (case n of
                 Num t \<Rightarrow> Num ((now - t) / 86400000)
               | Infinity \<Rightarrow> NegInfinity
               | NegInfinity \<Rightarrow> Infinity
               | NaN \<Rightarrow> NaN))"

definition computeHealth :: "LocalState \<Rightarrow> rat" where
  "computeHealth st =
    (case missedStreak st of
       Num missed \<Rightarrow>
         if missed \<le> 0 then 1
         else if missed = 1 then 0.86
         else if missed = 2 then 0.68
         else 0.42
     | Infinity \<Rightarrow> 0.42
     | NegInfinity \<Rightarrow> 1
     | NaN \<Rightarrow> 0.42)"

definition canWater :: "rat \<Rightarrow> LocalState \<Rightarrow> bool" where
  "canWater now st = jsGe (hoursSince now (lastWateredAt st)) 1"

text \<open>\<open>computeMissedStreak(st)\<close>: \<open>clamp(Math.floor(d), 0, 30)\<close> is 30 for an infinite
  \<open>d\<close> and 0 for a negative infinite one.\<close>

definition computeMissedStreak :: "rat \<Rightarrow> LocalState \<Rightarrow> jsnum" where
  "computeMissedStreak now st =
    (case lastWateredAt st of
       None \<Rightarrow> Num 0
     | Some n \<Rightarrow>
         if \<not> truthy n then Num 0
         else (case daysSince now (Some n) of
                 Num d \<Rightarrow> Num (of_int (clamp \<lfloor>d\<rfloor> 0 30))
               | Infinity \<Rightarrow> Num 30
               | NegInfinity \<Rightarrow> Num 0
               | NaN \<Rightarrow> NaN))"

text \<open>\<open>planted = !!local.plantedAt\<close>; \<open>withered = (local.missedStreak || 0) >= 3\<close>.\<close>

definition planted :: "LocalState \<Rightarrow> bool" where
  "planted st = (case plantedAt st of None \<Rightarrow> False | Some n \<Rightarrow> truthy n)"


text \<open>\<open>Math.max(0, 24 - hoursSince(local.lastWateredAt))\<close>, and \<open>(local.growth || 1) + 1\<close>,
  the sum rounded to a double (from \<open>2\<^sup>5\<^sup>3\<close> on, adding 1 to a double gives the double
  again).\<close>

definition remainingWait :: "rat \<Rightarrow> LocalState \<Rightarrow> jsnum" where
  "remainingWait now st =
    (case hoursSince now (lastWateredAt st) of
       Num h \<Rightarrow> Num (max 0 (24 - h))
     | Infinity \<Rightarrow> Num 0
     | NegInfinity \<Rightarrow> Infinity
     | NaN \<Rightarrow> NaN)"

definition growthAfterWater :: "jsnum \<Rightarrow> jsnum" where
  "growthAfterWater g =
    (case orElse g (Num 1) of
       Num q \<Rightarrow> Num (toDouble (q + 1))
     | Infinity \<Rightarrow> Infinity
     | NegInfinity \<Rightarrow> NegInfinity
     | NaN \<Rightarrow> NaN)"

subsection \<open>The wallet and the game transaction\<close>

datatype intent = Plant | Water | Revive | Graft

definition intentTag :: "intent \<Rightarrow> string" where
  "intentTag i = (case i of Plant \<Rightarrow> ''plant'' | Water \<Rightarrow> ''water'' | Revive \<Rightarrow> ''revive'' | Graft \<Rightarrow> ''graft'')"

text \<open>The messages of \<open>toast.show\<close>, one constructor for each literal of the source:
  \<open>WaterReadyIn hrs\<close> is \<open>Water is ready in ~${hrs.toFixed(1)}h.\<close>, \<open>Thrown m\<close> shows the
  message of a caught error, \<open>PreTx\<close> is the message shown before the wallet opens.\<close>

datatype toast =
    ConnectFirst | AlreadyPlanted | PlantFirst | WaterReadyIn jsnum | NotWitheredYet
  | InvalidFriendAddress | NoProvider | NoProviderHost | BuilderCodeMissing | ContractInvalid
  | NeedGas | PreTx intent | CanceledInWallet | OnSepolia | Thrown string | TransactionFailed
  | SwitchFailed | ConnectionFailed | SeedPlanted | Watered | Revived | Grafted

definition BUILDER_CODE :: string where
  "BUILDER_CODE = ''bc_z79ttk8w''"

definition GAME_CONTRACT :: string where
  "GAME_CONTRACT = ''0xB331328F506f2D35125e367A190e914B1b6830cF''"

definition BASE_MAINNET :: string where
  "BASE_MAINNET = ''0x2105''"

definition BASE_SEPOLIA :: string where
  "BASE_SEPOLIA = ''0x14a34''"

text \<open>The call handed to \<open>wallet_sendCalls\<close> (the fields that vary), and the wallet
  provider during one action: whether there is one, and what each request returns. A
  request that rejects is \<open>Inl\<close> of the error's message (empty when it has none).\<close>

record callPayload =
  sender :: string
  target :: string
  callValue :: string
  callData :: string

record wallet =
  provider :: bool
  chainIdReply :: "string + string"
  switchReply :: "string + unit"
  chainIdAfterSwitch :: "string + string"
  accountsReply :: "string + string list"
  balanceReply :: "string + int"
  sendCallsReply :: "callPayload \<Rightarrow> string + unit"

text \<open>The state of the \<open>App\<close> component that the game actions read and write, with the
  store behind \<open>localStorage\<close>. \<open>toastMsg\<close> is the message on display.\<close>

record app =
  account :: string
  chainId :: string
  local :: LocalState
  friendAddress :: string
  friendHueState :: "jsnum option"
  store :: localStorage
  toastMsg :: "toast option"

definition showToast :: "toast \<Rightarrow> app \<Rightarrow> app" where
  "showToast m s = s\<lparr>toastMsg := Some m\<rparr>"

definition requestAccounts :: "wallet \<Rightarrow> string + string list" where
  "requestAccounts w =
    (case accountsReply w of
       Inl m \<Rightarrow> Inl m
     | Inr accounts \<Rightarrow> if accounts = [] then Inl ''No accounts returned.'' else Inr accounts)"

definition getChainId :: "string + string \<Rightarrow> string + string" where
  "getChainId reply =
    (case reply of
       Inl m \<Rightarrow> Inl m
     | Inr cid \<Rightarrow> if \<not> startsWith cid ''0x'' then Inl ''Invalid chainId'' else Inr cid)"

definition ensureBase :: "wallet \<Rightarrow> app \<Rightarrow> bool \<times> app" where
  "ensureBase w s =
    (if \<not> provider w then (False, showToast NoProvider s)
     else
       case getChainId (chainIdReply w) of
         Inl m \<Rightarrow> (False, showToast (if m = [] then SwitchFailed else Thrown m) s)
       | Inr cid \<Rightarrow>
           if cid = BASE_MAINNET \<or> cid = BASE_SEPOLIA then
             (True, (if cid \<noteq> BASE_MAINNET then showToast OnSepolia else id) (s\<lparr>chainId := cid\<rparr>))
           else
             case switchReply w of
               Inl m \<Rightarrow>
                 (False, showToast
                    (Thrown ''Please switch to Base Mainnet (0x2105) in your wallet to continue.'') s)
             | Inr u \<Rightarrow>
                 (case getChainId (chainIdAfterSwitch w) of
                    Inl m \<Rightarrow> (False, showToast (if m = [] then SwitchFailed else Thrown m) s)
                  | Inr after \<Rightarrow> (after = BASE_MAINNET, s\<lparr>chainId := after\<rparr>)))"

text \<open>\<open>String.prototype.includes\<close>.\<close>

fun strIncludes :: "string \<Rightarrow> string \<Rightarrow> bool" where
  "strIncludes [] p = (p = [])"
| "strIncludes (c # cs) p = (startsWith (c # cs) p \<or> strIncludes cs p)"

text \<open>The \<open>catch\<close> block of \<open>sendGameTx\<close>, then \<open>sendGameTx(intent)\<close>: the result and the
  state of the component after it.\<close>

definition txCaught :: "string \<Rightarrow> app \<Rightarrow> bool \<times> app" where
  "txCaught m s =
    (let msg = toLowerCase m in
     if strIncludes msg ''user rejected'' \<or> strIncludes msg ''rejected'' then (False, showToast CanceledInWallet s)
     else (False, showToast (if m = [] then TransactionFailed else Thrown m) s))"

definition sendGameTx :: "wallet \<Rightarrow> intent \<Rightarrow> app \<Rightarrow> bool \<times> app" where
  "sendGameTx w i s =
    (if \<not> provider w then (False, showToast NoProvider s)
     else if BUILDER_CODE = [] then (False, showToast BuilderCodeMissing s)
     else if \<not> isLikelyAddress GAME_CONTRACT then (False, showToast ContractInvalid s)
     else
       let (ok, s1) = ensureBase w s in
       if \<not> ok then (False, s1)
       else
         case requestAccounts w of
           Inl m \<Rightarrow> txCaught m s1
         | Inr accounts \<Rightarrow>
             (case balanceReply w of
                Inl m \<Rightarrow> txCaught m s1
              | Inr balWei \<Rightarrow>
                  if balWei \<le> 0 then (False, showToast NeedGas s1)
                  else
                    case encodeLogAction (intentTag i) None of
                      Inl (Error m) \<Rightarrow> txCaught m s1
                    | Inr callBytes \<Rightarrow>
                        let call = \<lparr>sender = hd accounts, target = GAME_CONTRACT,
                                    callValue = ''0x0'', callData = callBytes\<rparr>;
                            s2 = showToast (PreTx i) s1
                        in case sendCallsReply w call of
                             Inl m \<Rightarrow> txCaught m s2
                           | Inr u \<Rightarrow> (True, s2)))"

subsection \<open>Game actions\<close>

text \<open>The handlers of the component. Each reads \<open>account\<close> and \<open>local\<close> as they are when
  it starts, and writes \<open>local\<close> and the store after the transaction. The arguments
  named \<open>t...\<close> are the values of \<open>nowMs()\<close> at its calls, in the order of the calls.
  \<open>refreshSignals\<close> (balance and nonce for the drawing) is not part of the game state.\<close>

definition plant :: "wallet \<Rightarrow> rat \<Rightarrow> rat \<Rightarrow> app \<Rightarrow> app" where
  "plant w tPlanted tWatered s =
    (if account s = [] then showToast ConnectFirst s
     else if planted (local s) then showToast AlreadyPlanted s
     else
       let (ok, s1) = sendGameTx w Plant s in
       if \<not> ok then s1
       else
         let next = \<lparr>plantedAt = Some (Num tPlanted), growth = Num 1,
                     lastWateredAt = Some (Num tWatered), missedStreak = Num 0,
                     revivedAt = None, lastGraftedAt = None\<rparr>
         in showToast SeedPlanted (s1\<lparr>local := next, store := saveState (account s) next (store s1)\<rparr>))"

definition water :: "wallet \<Rightarrow> rat \<Rightarrow> rat \<Rightarrow> rat \<Rightarrow> app \<Rightarrow> app" where
  "water w tGate tMessage tCommit s =
    (if account s = [] then showToast ConnectFirst s
     else if \<not> planted (local s) then showToast PlantFirst s
     else if \<not> canWater tGate (local s) then
       showToast (WaterReadyIn (remainingWait tMessage (local s))) s
     else
       let (ok, s1) = sendGameTx w Water s in
       if \<not> ok then s1
       else
         let next = (local s)\<lparr>growth := growthAfterWater (growth (local s)),
                               lastWateredAt := Some (Num tCommit), missedStreak := Num 0\<rparr>
         in showToast Watered (s1\<lparr>local := next, store := saveState (account s) next (store s1)\<rparr>))"

definition revive :: "wallet \<Rightarrow> rat \<Rightarrow> rat \<Rightarrow> app \<Rightarrow> app" where
  "revive w tRevived tWatered s =
    (if account s = [] then showToast ConnectFirst s
     else if \<not> planted (local s) then showToast PlantFirst s
     else if jsLt (orElse (missedStreak (local s)) (Num 0)) 3 then showToast NotWitheredYet s
     else
       let (ok, s1) = sendGameTx w Revive s in
       if \<not> ok then s1
       else
         let next = (local s)\<lparr>missedStreak := Num 0, revivedAt := Some (Num tRevived),
                               lastWateredAt := Some (Num tWatered)\<rparr>
         in showToast Revived (s1\<lparr>local := next, store := saveState (account s) next (store s1)\<rparr>))"

text \<open>\<open>Math.floor(hashToUnitFloat(addr) * 360)\<close>, in doubles: \<open>hashToUnitFloat\<close> gives
  the quotient, the value \<open>graft\<close> holds is the double of it, and the product with 360
  is rounded again before \<open>Math.floor\<close>. So the address with the leading digits
  \<open>00000002ab98\<close> (0.175) has the hue 62, where the exact product is 63.\<close>

definition hueOf :: "string \<Rightarrow> jsnum" where
  "hueOf addr =
    (case hashToUnitFloat addr of
       Num q \<Rightarrow> Num (of_int \<lfloor>toDouble (toDouble q * 360)\<rfloor>)
     | Infinity \<Rightarrow> NaN
     | NegInfinity \<Rightarrow> NaN
     | NaN \<Rightarrow> NaN)"

definition graft :: "wallet \<Rightarrow> rat \<Rightarrow> app \<Rightarrow> app" where
  "graft w tGrafted s =
    (if account s = [] then showToast ConnectFirst s
     else if \<not> planted (local s) then showToast PlantFirst s
     else
       let addr = trim (friendAddress s) in
       if \<not> isLikelyAddress addr then showToast InvalidFriendAddress s
       else
         let hue = hueOf addr;
             s0 = s\<lparr>friendHueState := Some hue\<rparr>;
             (ok, s1) = sendGameTx w Graft s0
         in if \<not> ok then s1
            else
              let next = (local s)\<lparr>lastGraftedAt := Some (Num tGrafted)\<rparr>
              in showToast Grafted (s1\<lparr>local := next, store := saveState (account s) next (store s1)\<rparr>))"

text \<open>The effect that runs when \<open>account\<close> has changed: load, recompute the missed
  streak, keep and save. Then \<open>connect\<close>, which sets the account and the chain.\<close>

definition accountEffect :: "rat \<Rightarrow> app \<Rightarrow> app" where
  "accountEffect now s =
    (if account s = [] then s
     else
       let st = loadState (account s) (store s);
           missed = computeMissedStreak now st;
           merged = st\<lparr>missedStreak := missed\<rparr>
       in s\<lparr>local := merged, store := saveState (account s) merged (store s)\<rparr>)"

definition connect :: "wallet \<Rightarrow> rat \<Rightarrow> app \<Rightarrow> app" where
  "connect w now s =
    (if \<not> provider w then showToast NoProviderHost s
     else
       case requestAccounts w of
         Inl m \<Rightarrow> showToast (if m = [] then ConnectionFailed else Thrown m) s
       | Inr accounts \<Rightarrow>
           let s1 = s\<lparr>account := hd accounts\<rparr>;
               s2 = (case getChainId (chainIdReply w) of
                       Inl m \<Rightarrow> showToast (if m = [] then ConnectionFailed else Thrown m) s1
                     | Inr cid \<Rightarrow> s1\<lparr>chainId := cid\<rparr>)
           in if account s2 \<noteq> account s then accountEffect now s2 else s2)"



text \<open>The states of the component that the actions reach from a first state with no
  account, the zero game state and the store \<open>store0\<close>.\<close>

definition initialApp :: "localStorage \<Rightarrow> app" where
  "initialApp store0 =
    \<lparr>account = [], chainId = [], local = zeroState, friendAddress = [],
     friendHueState = None, store = store0, toastMsg = None\<rparr>"

inductive reachable :: "localStorage \<Rightarrow> app \<Rightarrow> bool" for store0 :: localStorage where
  start: "reachable store0 (initialApp store0)"
| connects: "reachable store0 s \<Longrightarrow> reachable store0 (connect w now s)"
| plants: "reachable store0 s \<Longrightarrow> reachable store0 (plant w t1 t2 s)"
| waters: "reachable store0 s \<Longrightarrow> reachable store0 (water w t1 t2 t3 s)"
| revives: "reachable store0 s \<Longrightarrow> reachable store0 (revive w t1 t2 s)"
| grafts: "reachable store0 s \<Longrightarrow> reachable store0 (graft w t s)"
| types: "reachable store0 s \<Longrightarrow> reachable store0 (s\<lparr>friendAddress := a\<rparr>)"

text \<open>The invariant of the specification, \<open>plantedAt\<close> set implies \<open>growth \<ge> 1\<close>, on a
  game state, with \<open>growth\<close> a finite number (\<open>saveState\<close> does not keep an infinite
  one); and the same on the records of a store, as they are stored: a record that has a
  number for \<open>plantedAt\<close> has a finite number of at least 1 for \<open>growth\<close>.\<close>

definition growthInvariant :: "LocalState \<Rightarrow> bool" where
  "growthInvariant st =
    (plantedAt st \<noteq> None \<longrightarrow> (case growth st of Num g \<Rightarrow> 1 \<le> g | _ \<Rightarrow> False))"

definition recordInvariant :: "json \<Rightarrow> bool" where
  "recordInvariant j =
    (numberField j ''plantedAt'' \<noteq> None \<longrightarrow>
       (case numberField j ''growth'' of Some (Num g) \<Rightarrow> 1 \<le> g | _ \<Rightarrow> False))"

definition storeInvariant :: "localStorage \<Rightarrow> bool" where
  "storeInvariant st = (\<forall>k j. st k = Some (Parsed j) \<longrightarrow> recordInvariant j)"

text \<open>Two wallets to run the actions on concrete inputs: one on Base Mainnet, with gas,
  that accepts every call; and the same with a user who rejects the call.\<close>

definition readyWallet :: wallet where
  "readyWallet =
    \<lparr>provider = True, chainIdReply = Inr ''0x2105'', switchReply = Inr (),
     chainIdAfterSwitch = Inr ''0x2105'',
     accountsReply = Inr [''0x5eC6AF0798b25C563B102d3469971f1a8d598121''],
     balanceReply = Inr 1000000000000000,
     sendCallsReply = (\<lambda>call. Inr ())\<rparr>"

definition decliningWallet :: wallet where
  "decliningWallet = readyWallet\<lparr>sendCallsReply := (\<lambda>call. Inl ''User rejected the request.'')\<rparr>"

subsection \<open>Deterministic PRNG\<close>

text \<open>The closure variable \<open>a\<close> of \<open>mulberry32\<close> is a double, and \<open>a += 0x6d2b79f5\<close> is
  an addition of doubles: exact below \<open>2 ^ 53\<close>, rounded to the nearest double (ties to
  even) from there on. \<open>fl64\<close> is that rounding on integers (the sums reached stay far
  below the overflow threshold of doubles). \<open>NonFinite\<close> is a value of \<open>a\<close> that
  is NaN or infinite: it stays so, and \<open>ToInt32\<close> maps it to 0.\<close>

definition fl64 :: "int \<Rightarrow> int" where
  "fl64 x =
    (let m = \<bar>x\<bar> in
     if m < 2 ^ 53 then x
     else
       let e = bitLength m - 53;
           q = m div 2 ^ e;
           r = m mod 2 ^ e;
           h = 2 ^ (e - 1);
           q' = (if h < r \<or> (r = h \<and> odd q) then q + 1 else q)
       in sgn x * (q' * 2 ^ e))"

datatype rngstate = NonFinite | A int

text \<open>\<open>ToInt32\<close> of the state; \<open>Math.imul\<close>; then one call of the function that
  \<open>mulberry32(a)\<close> returns, as a function of the closure variable: the result and the
  new value of \<open>a\<close>. The signed 32-bit values of the source are \<open>32 word\<close>s, \<open>>>>\<close>
  is \<open>drop_bit\<close>, and \<open>t + Math.imul(...)\<close>, a sum of doubles that is exact and is then
  truncated by \<open>^\<close>, is the sum of words.\<close>

definition toInt32 :: "rngstate \<Rightarrow> 32 word" where
  "toInt32 s = (case s of NonFinite \<Rightarrow> 0 | A a \<Rightarrow> word_of_int a)"

definition imul :: "32 word \<Rightarrow> 32 word \<Rightarrow> 32 word" where
  "imul x y = x * y"

definition mulberry32_call :: "rngstate \<Rightarrow> rat \<times> rngstate" where
  "mulberry32_call s =
    (let s' = (case s of NonFinite \<Rightarrow> NonFinite | A a \<Rightarrow> A (fl64 (a + 1831565813)));
         t0 = toInt32 s';
         t1 = imul (t0 XOR drop_bit 15 t0) (t0 OR 1);
         t2 = t1 XOR (t1 + imul (t1 XOR drop_bit 7 t1) (t1 OR 61));
         out = t2 XOR drop_bit 14 t2
     in (of_int (uint out) / 4294967296, s'))"


subsection \<open>Procedural renderer\<close>

text \<open>\<open>BonsaiParams\<close>. Its numbers are finite, as the component builds them (clamped
  logarithms, a sine, \<open>computeHealth\<close>, and \<open>planted ? Math.max(1, local.growth) : 0\<close>
  for \<open>growth\<close>), and are real numbers here; \<open>friendHue\<close> is optional.\<close>

record BonsaiParams =
  seed :: string
  richness :: real
  activity :: real
  growth :: real
  health :: real
  breeze :: real
  friendHue :: "real option"

text \<open>The drawing primitives the renderer calls, with their arguments:
  \<open>drawInkStroke(ctx, x1, y1, x2, y2, w, alpha, gray)\<close>,
  \<open>drawLeaf(ctx, x, y, s, inkBase, wither)\<close>, \<open>drawBloom(ctx, x, y, s, hue)\<close>. What they
  paint (with \<open>Math.random\<close>, which is not the seeded generator) is the canvas's side.
  A \<open>calltree\<close> is one call of \<open>branch\<close>: its \<open>depth\<close> argument, the primitives it
  calls itself, in order, and the calls of \<open>branch\<close> it makes, in order.\<close>

datatype cmd =
    InkStroke real real real real real real real
  | Leaf real real real real real
  | Bloom real real real real

datatype calltree = Call int "cmd list" "calltree list"

text \<open>The renderer's variable \<open>rng\<close>, called: the result as a real number.\<close>

definition rng :: "rngstate \<Rightarrow> real \<times> rngstate" where
  "rng s = (let (u, s') = mulberry32_call s in (real_of_rat u, s'))"

definition wither :: "BonsaiParams \<Rightarrow> real" where
  "wither p = 1 - health p"

definition inkBase :: "BonsaiParams \<Rightarrow> real" where
  "inkBase p = 20 + wither p * 90"

definition sway :: "BonsaiParams \<Rightarrow> real" where
  "sway p = (breeze p - 0.5) * 22"

definition bend :: "BonsaiParams \<Rightarrow> real" where
  "bend p = sway p * (0.55 + activity p * 0.55)"

definition maxDepth :: "BonsaiParams \<Rightarrow> int" where
  "maxDepth p = clamp (3 + \<lfloor>growth p / 1.5\<rfloor>) 3 10"

definition leafiness :: "BonsaiParams \<Rightarrow> real" where
  "leafiness p = clamp (0.1 + activity p * 0.9) 0 1"

definition bloomChance :: "BonsaiParams \<Rightarrow> real" where
  "bloomChance p = clamp (0.04 + activity p * 0.18) 0.04 0.25"

text \<open>The loop \<open>for (let i = 0; i < count; i++)\<close> over the leaves of one branch tip; the
  argument counts the iterations left. \<open>rng() < bloomChance && p.friendHue !== undefined\<close>
  always draws, and draws the bloom's size only when both hold.\<close>

fun leafLoop :: "BonsaiParams \<Rightarrow> real \<Rightarrow> real \<Rightarrow> nat \<Rightarrow> rngstate \<Rightarrow> cmd list \<times> rngstate" where
  "leafLoop p ex ey 0 r = ([], r)"
| "leafLoop p ex ey (Suc n) r =
    (let (u1, r1) = rng r;
         lx = ex + (u1 - 0.5) * 16;
         (u2, r2) = rng r1;
         ly = ey + (u2 - 0.5) * 16;
         (u3, r3) = rng r2;
         leaf = Leaf lx ly (3 + u3 * 5) (inkBase p) (wither p);
         (u4, r4) = rng r3;
         (bloom, r5) =
           (if u4 < bloomChance p then
              (case friendHue p of
                 None \<Rightarrow> ([], r4)
               | Some hue \<Rightarrow> (let (u5, r5) = rng r4 in ([Bloom (lx + 2) (ly - 2) (3 + u5 * 4) hue], r5)))
            else ([], r4));
         (rest, r6) = leafLoop p ex ey n r5
     in (leaf # bloom @ rest, r6))"

text \<open>One call of \<open>branch\<close>, in the order of its statements. \<open>branchStroke\<close>: the
  jitter, the end point and the ink stroke. \<open>branchLeaves\<close>: the leaves and blooms at the
  tip. \<open>splitCount\<close>: the number of primary children. \<open>splitArgs\<close>: the arguments of
  the primary child \<open>i\<close>. \<open>sideArgs\<close>: the arguments of the thin side branch.\<close>

definition branchStroke ::
  "BonsaiParams \<Rightarrow> real \<Rightarrow> real \<Rightarrow> real \<Rightarrow> real \<Rightarrow> real \<Rightarrow> int \<Rightarrow> rngstate
     \<Rightarrow> (real \<times> real \<times> real \<times> cmd) \<times> rngstate" where
  "branchStroke p x y ang len thick depth r0 =
    (let t = real_of_int depth / real_of_int (maxDepth p);
         (u1, r1) = rng r0;
         jitter = (u1 - 0.5) * 0.25;
         a = ang + jitter;
         ex = x + cos a * len + bend p * t * 0.18;
         ey = y - sin a * len;
         alpha = 0.88 - t * 0.35
     in ((a, ex, ey, InkStroke x y ex ey thick alpha (inkBase p)), r1))"

definition branchLeaves ::
  "BonsaiParams \<Rightarrow> real \<Rightarrow> real \<Rightarrow> int \<Rightarrow> rngstate \<Rightarrow> cmd list \<times> rngstate" where
  "branchLeaves p ex ey depth r1 =
    (if depth > maxDepth p - 3 then
       (let (u2, r) = rng r1 in
        if u2 < leafiness p then
          (let (u3, r') = rng r;
               count = 1 + nat \<lfloor>u3 * 3\<rfloor>
           in leafLoop p ex ey count r')
        else ([], r))
     else ([], r1))"

definition splitCount :: "int \<Rightarrow> rngstate \<Rightarrow> nat \<times> rngstate" where
  "splitCount depth r2 =
    (if depth < 2 then (1, r2)
     else (let (u4, r) = rng r2 in (if u4 < 0.65 then 2 else 1, r)))"

definition splitArgs ::
  "BonsaiParams \<Rightarrow> real \<Rightarrow> real \<Rightarrow> real \<Rightarrow> int \<Rightarrow> nat \<Rightarrow> rngstate
     \<Rightarrow> (real \<times> real \<times> real) \<times> rngstate" where
  "splitArgs p a len thick depth i r =
    (let t = real_of_int depth / real_of_int (maxDepth p);
         dir = (if i = 0 then - 1 else 1);
         (u1, r1) = rng r;
         nextAng = a + dir * (0.45 + u1 * 0.35) * (0.85 + t * 0.3);
         (u2, r2) = rng r1;
         nextLen = len * (0.74 + u2 * 0.08);
         (u3, r3) = rng r2;
         nextThick = max 1.2 (thick * (0.7 + u3 * 0.06))
     in ((nextAng, nextLen, nextThick), r3))"

definition sideArgs ::
  "real \<Rightarrow> real \<Rightarrow> real \<Rightarrow> rngstate \<Rightarrow> (real \<times> real \<times> real) \<times> rngstate" where
  "sideArgs a len thick r5 =
    (let (u6, r6) = rng r5;
         nextAng = a + (u6 - 0.5) * 0.35;
         (u7, r7) = rng r6
     in ((nextAng, len * (0.55 + u7 * 0.12), max 1.0 (thick * 0.55)), r7))"

text \<open>\<open>branch\<close> and its loop \<open>for (let i = 0; i < splits; i++)\<close>, which calls \<open>branch\<close>
  for each primary child. Each returns what it drew and the state of the generator.\<close>

function branch :: "BonsaiParams \<Rightarrow> real \<Rightarrow> real \<Rightarrow> real \<Rightarrow> real \<Rightarrow> real \<Rightarrow> int \<Rightarrow> rngstate \<Rightarrow> calltree \<times> rngstate"
  and splitLoop :: "BonsaiParams \<Rightarrow> real \<Rightarrow> real \<Rightarrow> real \<Rightarrow> real \<Rightarrow> real \<Rightarrow> int \<Rightarrow> nat \<Rightarrow> nat \<Rightarrow> rngstate \<Rightarrow> calltree list \<times> rngstate"
where
  "branch p x y ang len thick depth r0 =
    (let ((a, ex, ey, stroke), r1) = branchStroke p x y ang len thick depth r0;
         (leaves, r2) = branchLeaves p ex ey depth r1
     in if depth \<ge> maxDepth p then (Call depth (stroke # leaves) [], r2)
        else
          (let (splits, r3) = splitCount depth r2;
               (kids, r4) = splitLoop p ex ey a len thick depth 0 splits r3;
               (u5, r5) = rng r4
           in if u5 < 0.28 then
                (let ((nextAng, nextLen, nextThick), r6) = sideArgs a len thick r5;
                     (extra, r7) = branch p ex ey nextAng nextLen nextThick (depth + 1) r6
                 in (Call depth (stroke # leaves) (kids @ [extra]), r7))
              else (Call depth (stroke # leaves) kids, r5)))"
| "splitLoop p ex ey a len thick depth i splits r =
    (if i < splits then
       (let ((nextAng, nextLen, nextThick), r1) = splitArgs p a len thick depth i r;
            (kid, r2) = branch p ex ey nextAng nextLen nextThick (depth + 1) r1;
            (rest, r3) = splitLoop p ex ey a len thick depth (i + 1) splits r2
        in (kid # rest, r3))
     else ([], r))"
  by pat_completeness auto
termination
  by (relation "measures [
      (\<lambda>v. case v of
         Inl (p, x, y, ang, len, thick, depth, r) \<Rightarrow> 2 * nat (maxDepth p - depth + 1)
       | Inr (p, ex, ey, a, len, thick, depth, i, splits, r) \<Rightarrow> 2 * nat (maxDepth p - depth) + 1),
      (\<lambda>v. case v of
         Inl (p, x, y, ang, len, thick, depth, r) \<Rightarrow> 0
       | Inr (p, ex, ey, a, len, thick, depth, i, splits, r) \<Rightarrow> splits - i)]")
    auto

declare branch.simps [simp del] splitLoop.simps [simp del]

text \<open>The falling leaves drawn after the branches (three iterations).\<close>

fun fallingLoop :: "real \<Rightarrow> real \<Rightarrow> BonsaiParams \<Rightarrow> nat \<Rightarrow> rngstate \<Rightarrow> cmd list \<times> rngstate" where
  "fallingLoop w h p 0 r = ([], r)"
| "fallingLoop w h p (Suc n) r =
    (let (u1, r1) = rng r in
     if u1 < 0.12 then
       (let (u2, r2) = rng r1;
            fx = w * (0.2 + u2 * 0.6);
            (u3, r3) = rng r2;
            fy = h * (0.25 + u3 * 0.6);
            (u4, r4) = rng r3;
            (rest, r5) = fallingLoop w h p n r4
        in (Leaf fx fy (2.5 + u4 * 3.5) (inkBase p + 20) (wither p) # rest, r5))
     else fallingLoop w h p n r1)"

text \<open>\<open>mulberry32(Math.floor(seedUnit * 2 ** 31))\<close>: the state of a fresh generator.\<close>

definition seedState :: "BonsaiParams \<Rightarrow> rngstate" where
  "seedState p =
    (case hashToUnitFloat (seed p) of
       Num seedUnit \<Rightarrow> A \<lfloor>seedUnit * 2 ^ 31\<rfloor>
     | Infinity \<Rightarrow> NonFinite
     | NegInfinity \<Rightarrow> NonFinite
     | NaN \<Rightarrow> NonFinite)"

text \<open>The stroke \<open>i\<close> of the trunk loop (\<open>trunkSteps = 10\<close>).\<close>

definition trunkStroke :: "real \<Rightarrow> real \<Rightarrow> BonsaiParams \<Rightarrow> nat \<Rightarrow> cmd" where
  "trunkStroke w h p i =
    (let trunkSteps = 10;
         potY = h * 0.8;
         cx = w * 0.5;
         baseY = potY + 8;
         trunkBase = 10 + richness p * 24;
         height = h * 0.58;
         y0 = baseY - (real i / trunkSteps) * height;
         y1 = baseY - ((real i + 1) / trunkSteps) * height;
         x0 = cx + (bend p * (real i / trunkSteps)) * 0.35;
         x1 = cx + (bend p * ((real i + 1) / trunkSteps)) * 0.35;
         tw = trunkBase * (1 - (real i / trunkSteps) * 0.75)
     in InkStroke x0 y0 x1 y1 tw 0.92 (inkBase p))"

text \<open>One pass of \<open>renderBonsai(ctx, w, h, p)\<close>: the trunk strokes, the two base calls
  of \<open>branch\<close> after the reset of the generator, the falling leaves, and the state of the
  generator at the end. The paper noise, the pot and the vignette read neither the
  generator nor the branches and are left out.\<close>

record frame =
  trunk :: "cmd list"
  boughs :: "calltree list"
  fallen :: "cmd list"
  rngAfter :: rngstate

definition renderBonsai :: "real \<Rightarrow> real \<Rightarrow> BonsaiParams \<Rightarrow> frame" where
  "renderBonsai w h p =
    (let potY = h * 0.8;
         cx = w * 0.5;
         baseY = potY + 8;
         trunkBase = 10 + richness p * 24;
         height = h * 0.58;
         strokes = map (trunkStroke w h p) [0..<10];
         startX = cx + bend p * 0.16;
         startY = baseY - height * 0.55;
         baseLen = 70 + growth p * 10;
         r0 = seedState p;
         (b1, r1) = branch p startX startY (pi / 2 - 0.3) baseLen (trunkBase * 0.55) 1 r0;
         (b2, r2) = branch p startX startY (pi / 2 + 0.3) (baseLen * 0.96) (trunkBase * 0.55) 1 r1;
         (leaves, r3) = fallingLoop w h p 3 r2
     in \<lparr>trunk = strokes, boughs = [b1, b2], fallen = leaves, rngAfter = r3\<rparr>)"

text \<open>The topology of a drawing: everything but the horizontal coordinates.\<close>

fun eraseX :: "cmd \<Rightarrow> cmd" where
  "eraseX (InkStroke x1 y1 x2 y2 w alpha gray) = InkStroke 0 y1 0 y2 w alpha gray"
| "eraseX (Leaf x y s ink wi) = Leaf 0 y s ink wi"
| "eraseX (Bloom x y s hue) = Bloom 0 y s hue"

fun eraseTree :: "calltree \<Rightarrow> calltree" where
  "eraseTree (Call d cs kids) = Call d (map eraseX cs) (map eraseTree kids)"

text \<open>\<open>nested hi t\<close>: every call in \<open>t\<close> has a depth of at most \<open>hi\<close>, and each call made
  by a call of depth \<open>d\<close> has depth \<open>d + 1\<close>. \<open>nesting t\<close>: the number of calls of
  \<open>branch\<close> on the longest chain of calls in \<open>t\<close>.\<close>

fun depthOf :: "calltree \<Rightarrow> int" where
  "depthOf (Call d cs kids) = d"

fun nested :: "int \<Rightarrow> calltree \<Rightarrow> bool" where
  "nested hi (Call d cs kids) = (d \<le> hi \<and> list_all (\<lambda>k. depthOf k = d + 1 \<and> nested hi k) kids)"

fun nesting :: "calltree \<Rightarrow> nat" where
  "nesting (Call d cs kids) = Suc (foldr max (map nesting kids) 0)"

text \<open>Generators as objects: a heap of closure variables, \<open>mulberry32\<close> allocating a new
  one, \<open>callGen\<close> calling one, \<open>runCalls\<close> a sequence of calls with the trace of their
  results, \<open>outputsOf\<close> the results of one generator in a trace, and \<open>draws n s\<close> the first
  \<open>n\<close> results of a generator started at \<open>s\<close>.\<close>

type_synonym heap = "rngstate list"

definition mulberry32 :: "rngstate \<Rightarrow> heap \<Rightarrow> nat \<times> heap" where
  "mulberry32 a h = (length h, h @ [a])"

definition callGen :: "nat \<Rightarrow> heap \<Rightarrow> rat \<times> heap" where
  "callGen g h = (let (u, s') = mulberry32_call (h ! g) in (u, h[g := s']))"

fun runCalls :: "nat list \<Rightarrow> heap \<Rightarrow> (nat \<times> rat) list \<times> heap" where
  "runCalls [] h = ([], h)"
| "runCalls (g # gs) h =
    (let (u, h1) = callGen g h;
         (tr, h2) = runCalls gs h1
     in ((g, u) # tr, h2))"

definition outputsOf :: "nat \<Rightarrow> (nat \<times> rat) list \<Rightarrow> rat list" where
  "outputsOf g tr = map snd (filter (\<lambda>e. fst e = g) tr)"

fun draws :: "nat \<Rightarrow> rngstate \<Rightarrow> rat list" where
  "draws 0 s = []"
| "draws (Suc n) s = (let (u, s') = mulberry32_call s in u # draws n s')"

section \<open>Theorems\<close>

subsection \<open>Log action encoder\<close>

text \<open>
  C6. \<open>encodeLogAction("plant")\<close>, called without the auxiliary payload, returns exactly
  \<open>0x\<close>, the selector \<open>2d9bc1fb\<close>, the five UTF-8 bytes of "plant" (\<open>70 6c 61 6e 74\<close>)
  right-padded with zeros to 32 bytes, the offset word of value 0x40, and an all-zero
  length word; nothing follows the length word.
\<close>

theorem encodeLogAction_plant:
  "encodeLogAction ''plant'' None =
     Inr (''0x'' @ ''2d9bc1fb''
          @ ''706c616e74'' @ replicate 54 (CHR ''0'')
          @ replicate 62 (CHR ''0'') @ ''40''
          @ replicate 64 (CHR ''0''))"
  by code_simp

subsection \<open>Seed derivation\<close>

lemma jsTrunc_nonneg: "0 \<le> n \<Longrightarrow> 0 < m \<Longrightarrow> jsTrunc (of_int n / of_int m) = n div m"
  unfolding jsTrunc_def 
  by (simp add: floor_divide_of_int_eq)

lemma jsRem_nonneg: 
  assumes "0 \<le> n" "0 < m" 
  shows "jsRem (of_int n) (of_int m) = of_int (n mod m)"
proof -
  have "(of_int n :: rat) = of_int (n mod m) + of_int m * of_int (n div m)" 
    by (simp flip: of_int_mult of_int_add)
  then show ?thesis
    unfolding jsRem_def jsTrunc_nonneg[OF assms] by (simp add: algebra_simps)
qed

lemma hexCharValue_nonneg: "isHexChar c \<Longrightarrow> 0 \<le> hexCharValue c \<and> hexCharValue c < 16"
  by (auto simp: isHexChar_def hexCharValue_def Let_def)

lemma hexValue_snoc: "hexValue (s @ [c]) = 16 * hexValue s + hexCharValue c"
  by (simp add: hexValue_def)

lemma hexValue_nonneg: "list_all isHexChar s \<Longrightarrow> 0 \<le> hexValue s"
proof (induction s rule: rev_induct)
  case Nil
  then show ?case by (simp add: hexValue_def)
next
  case (snoc c s)
  then show ?case using hexCharValue_nonneg[of c] by (simp add: hexValue_snoc)
qed

lemma isHexChar_facts:
  "isHexChar c \<Longrightarrow> \<not> isWhiteSpace c \<and> c \<noteq> CHR ''-'' \<and> c \<noteq> CHR ''+'' \<and> c \<noteq> CHR ''x'' \<and> c \<noteq> CHR ''X''"
  by (auto simp: isHexChar_def isWhiteSpace_def Let_def)

lemma takeWhile_all: "list_all P xs \<Longrightarrow> takeWhile P xs = xs"
  by (induction xs) auto

lemma parseInt16_hex:
  assumes "list_all isHexChar z" "z \<noteq> []"
  shows "parseInt16 z = Num (of_int (hexValue z))"
proof -
  obtain c cs where z: "z = c # cs" using assms(2) by (cases z) auto
  have c: "isHexChar c" and cs: "list_all isHexChar cs" using assms(1) z by auto
  note f = isHexChar_facts[OF c]
  have s1: "dropWhile isWhiteSpace (c # cs) = c # cs" using f by simp
  have s2: "\<not> startsWith (c # cs) ''-''" "\<not> startsWith (c # cs) ''+''"
    using f by (simp_all add: startsWith_def)
  have s3: "\<not> startsWith (c # cs) ''0x''" "\<not> startsWith (c # cs) ''0X''"
  proof -
    show "\<not> startsWith (c # cs) ''0x''"
    proof (cases cs)
      case Nil
      then show ?thesis by (simp add: startsWith_def)
    next
      case (Cons d ds)
      then have "isHexChar d" using cs by simp
      from isHexChar_facts[OF this] show ?thesis using Cons by (simp add: startsWith_def)
    qed
    show "\<not> startsWith (c # cs) ''0X''"
    proof (cases cs)
      case Nil
      then show ?thesis by (simp add: startsWith_def)
    next
      case (Cons d ds)
      then have "isHexChar d" using cs by simp
      from isHexChar_facts[OF this] show ?thesis using Cons by (simp add: startsWith_def)
    qed
  qed
  have tw: "takeWhile isHexChar (c # cs) = c # cs"
    using takeWhile_all[OF assms(1)] z by simp
  show ?thesis
    unfolding parseInt16_def z s1 Let_def using s2 s3 tw
    by simp
qed

lemma strip0x_hex: "list_all isHexChar ds \<Longrightarrow> strip0x ds = ds"
proof (cases ds)
  case Nil
  then show ?thesis by (simp add: strip0x_def startsWith_def)
next
  case (Cons c cs)
  assume a: "list_all isHexChar ds"
  show ?thesis
  proof (cases cs)
    case Nil
    then show ?thesis using Cons by (simp add: strip0x_def startsWith_def)
  next
    case (Cons d es)
    then have "isHexChar d" using a \<open>ds = c # cs\<close> by simp
    from isHexChar_facts[OF this] show ?thesis using Cons \<open>ds = c # cs\<close>
      by (simp add: strip0x_def startsWith_def)
  qed
qed

lemma strip0x_prefixed: "strip0x (''0x'' @ ds) = ds"
  by (simp add: strip0x_def startsWith_def)

lemma hashToUnitFloat_clean:
  assumes "list_all isHexChar ds" "strip0x s = ds"
  shows "hashToUnitFloat s = Num (of_int (hexValue (take 12 ds) mod 1000000) / 1000000)"
proof (cases "take 12 ds = []")
  case True
  have "parseInt16 ''0'' = Num 0" by code_simp
  moreover have "jsRem 0 1000000 = 0" by (simp add: jsRem_def jsTrunc_def)
  ultimately show ?thesis using True assms(2)
    by (simp add: hashToUnitFloat_def Let_def hexValue_def)
next
  case False
  have h: "list_all isHexChar (take 12 ds)" using assms(1)
    by (simp add: list_all_iff) (meson in_set_takeD)
  have p: "parseInt16 (take 12 ds) = Num (of_int (hexValue (take 12 ds)))"
    using parseInt16_hex[OF h False] .
  have "jsRem (of_int (hexValue (take 12 ds))) (of_int 1000000) = of_int (hexValue (take 12 ds) mod 1000000)"
    by (rule jsRem_nonneg[OF hexValue_nonneg[OF h]]) simp
  then show ?thesis using False p assms(2)
    by (simp add: hashToUnitFloat_def Let_def)
qed


text \<open>
  C2 (as amended). \<open>hashToUnitFloat\<close> reads the leading (high-order) twelve hexadecimal
  digits of the identifier, after one optional \<open>0x\<close>: for an identifier made of
  hexadecimal digits, with or without the prefix, the result is that integer modulo one
  million, divided by one million, a value in [0,1). The empty identifier and the bare
  prefix \<open>0x\<close> give 0.
\<close>

theorem hashToUnitFloat_leading_digits:
  "list_all isHexChar ds \<Longrightarrow>
     hashToUnitFloat (''0x'' @ ds) = Num (of_int (hexValue (take 12 ds) mod 1000000) / 1000000)
   \<and> hashToUnitFloat ds = Num (of_int (hexValue (take 12 ds) mod 1000000) / 1000000)
   \<and> (0::rat) \<le> of_int (hexValue (take 12 ds) mod 1000000) / 1000000
   \<and> of_int (hexValue (take 12 ds) mod 1000000) / 1000000 < (1::rat)
   \<and> hashToUnitFloat [] = Num 0
   \<and> hashToUnitFloat ''0x'' = Num 0"
proof -
  assume h: "list_all isHexChar ds"
  have a: "hashToUnitFloat (''0x'' @ ds) = Num (of_int (hexValue (take 12 ds) mod 1000000) / 1000000)"
    by (rule hashToUnitFloat_clean[OF h strip0x_prefixed])
  have b: "hashToUnitFloat ds = Num (of_int (hexValue (take 12 ds) mod 1000000) / 1000000)"
    by (rule hashToUnitFloat_clean[OF h strip0x_hex[OF h]])
  have c: "(0::rat) \<le> of_int (hexValue (take 12 ds) mod 1000000) / 1000000"
    by simp
  have "hexValue (take 12 ds) mod 1000000 < 1000000" by simp
  then have d: "of_int (hexValue (take 12 ds) mod 1000000) / 1000000 < (1::rat)"
    by simp
  have e: "hashToUnitFloat [] = Num 0" by code_simp
  have f: "hashToUnitFloat ''0x'' = Num 0" by code_simp
  show ?thesis using a b c d e f by blast
qed

text \<open>The theorem for C2 at the address of the tip recipient: its leading twelve digits
  are \<open>5eC6AF0798b2\<close>, the integer 104207433046194, and the result is 0.046194.\<close>

theorem hashToUnitFloat_leading_digits_witness:
  "list_all isHexChar ''5eC6AF0798b25C563B102d3469971f1a8d598121''
   \<and> hashToUnitFloat (''0x'' @ ''5eC6AF0798b25C563B102d3469971f1a8d598121'') = Num (46194 / 1000000)
   \<and> hexValue (take 12 ''5eC6AF0798b25C563B102d3469971f1a8d598121'') = 104207433046194"
proof -
  have h: "list_all isHexChar ''5eC6AF0798b25C563B102d3469971f1a8d598121''" by code_simp
  have v: "hexValue (take 12 ''5eC6AF0798b25C563B102d3469971f1a8d598121'') = 104207433046194"
    by code_simp
  from hashToUnitFloat_leading_digits[OF h] v h show ?thesis by simp
qed

text \<open>
  C2 as stated fails. The identifier \<open>0x00...01\<close> has the low-order digits \<open>...01\<close>:
  whatever the number of low-order digits read (1, 12 or all 40), the specification's
  sentence gives 1/1000000, and the code gives 0, since it reads the first twelve digits.
  An identifier with no hexadecimal digit at its start, such as \<open>zz\<close>, does not give 0
  either: \<open>parseInt\<close> returns NaN, and so does \<open>hashToUnitFloat\<close>.
\<close>

theorem hashToUnitFloat_not_low_order:
  "hashToUnitFloat ''0x0000000000000000000000000000000000000001'' = Num 0
   \<and> seedFromLowOrderDigits 1 ''0x0000000000000000000000000000000000000001'' = 1 / 1000000
   \<and> seedFromLowOrderDigits 12 ''0x0000000000000000000000000000000000000001'' = 1 / 1000000
   \<and> seedFromLowOrderDigits 40 ''0x0000000000000000000000000000000000000001'' = 1 / 1000000
   \<and> hashToUnitFloat ''zz'' = NaN"
  by code_simp

subsection \<open>Token transfer encoder\<close>

text \<open>\<open>encodeUsdcTransfer\<close> throws exactly when the recipient is not an address or the
  amount is not positive; the thrown error is the whole result, so nothing is encoded.\<close>

lemma encodeUsdcTransfer_raises_iff:
  "(\<exists>e. encodeUsdcTransfer to amount = Inl e) \<longleftrightarrow> (\<not> isLikelyAddress to \<or> amount \<le> 0)"
  by (simp add: encodeUsdcTransfer_def Let_def)

text \<open>
  C5. The claim asks, for every address and every positive amount, for a 32-byte amount
  word. At the amount \<open>2 ^ 256\<close>, a positive \<open>bigint\<close>, \<open>encodeUsdcTransfer\<close> returns the
  selector, the padded address and then 65 hexadecimal digits: \<open>padStart\<close> never
  shortens, so the amount word is longer than 32 bytes.
\<close>

theorem encodeUsdcTransfer_overlong_amount:
  "encodeUsdcTransfer ''0x5eC6AF0798b25C563B102d3469971f1a8d598121'' (2 ^ 256) =
     Inr (''0x'' @ ''a9059cbb''
          @ replicate 24 (CHR ''0'') @ ''5ec6af0798b25c563b102d3469971f1a8d598121''
          @ ''1'' @ replicate 64 (CHR ''0''))"
  by code_simp

text \<open>The literal vector of the specification, amount 5000000 (\<open>0x4c4b40\<close>).\<close>

lemma encodeUsdcTransfer_5000000:
  "encodeUsdcTransfer ''0x5eC6AF0798b25C563B102d3469971f1a8d598121'' 5000000 =
     Inr (''0x'' @ ''a9059cbb''
          @ replicate 24 (CHR ''0'') @ ''5ec6af0798b25c563b102d3469971f1a8d598121''
          @ replicate 58 (CHR ''0'') @ ''4c4b40'')"
  by code_simp


text \<open>The digits of \<open>toString16\<close>: their number, and their value read back.\<close>

lemma length_toString16_le:
  "0 \<le> n \<Longrightarrow> n < 16 ^ k \<Longrightarrow> 0 < k \<Longrightarrow> length (toString16 n) \<le> k"
proof (induction n arbitrary: k rule: toString16.induct)
  case (1 n)
  show ?case
  proof (cases "n < 16")
    case True
    then show ?thesis using "1.prems" by (simp add: toString16.simps[of n])
  next
    case False
    then obtain j where k: "k = Suc j" using "1.prems" by (cases k) auto
    have j: "0 < j" using False "1.prems" k by (cases j) auto
    have "n div 16 < 16 ^ j" using "1.prems" k by simp
    then have "length (toString16 (n div 16)) \<le> j"
      using "1.IH"(2)[of j] False "1.prems" j by simp
    then show ?thesis using False "1.prems" k by (simp add: toString16.simps[of n])
  qed
qed

lemma length_toString16_gt:
  "16 ^ k \<le> n \<Longrightarrow> k < length (toString16 n)"
proof (induction n arbitrary: k rule: toString16.induct)
  case (1 n)
  have pos: "0 < n" using "1.prems" by (smt (verit) zero_less_power)
  show ?case
  proof (cases "n < 16")
    case True
    have "k = 0"
    proof (cases k)
      case 0
      then show ?thesis .
    next
      case (Suc j)
      have a: "(16::int) \<le> 16 * 16 ^ j" by simp
      have b: "(16::int) * 16 ^ j \<le> n" using "1.prems" Suc by simp
      show ?thesis using a b True by linarith
    qed
    then show ?thesis using True pos by (simp add: toString16.simps[of n])
  next
    case False
    show ?thesis
    proof (cases k)
      case 0
      then show ?thesis using False pos by (simp add: toString16.simps[of n])
    next
      case (Suc j)
      then have "16 ^ j \<le> n div 16" using "1.prems" by simp
      then have "j < length (toString16 (n div 16))"
        using "1.IH"(2)[of j] False pos by simp
      then show ?thesis using False pos Suc by (simp add: toString16.simps[of n])
    qed
  qed
qed

lemma hexCharValue_hexDigit: "0 \<le> d \<Longrightarrow> d < 16 \<Longrightarrow> hexCharValue (hexDigit d) = d"
proof -
  assume "0 \<le> d" "d < 16"
  then have "d = 0 \<or> d = 1 \<or> d = 2 \<or> d = 3 \<or> d = 4 \<or> d = 5 \<or> d = 6 \<or> d = 7
      \<or> d = 8 \<or> d = 9 \<or> d = 10 \<or> d = 11 \<or> d = 12 \<or> d = 13 \<or> d = 14 \<or> d = 15"
    by arith
  then show ?thesis
    by (auto simp: hexDigit_def hexCharValue_def)
qed

lemma hexValue_toString16: "0 \<le> n \<Longrightarrow> hexValue (toString16 n) = n"
proof (induction n rule: toString16.induct)
  case (1 n)
  show ?case
  proof (cases "n < 16")
    case True
    then show ?thesis using "1.prems" hexCharValue_hexDigit[of n]
      by (simp add: toString16.simps[of n] hexValue_def)
  next
    case False
    have "hexValue (toString16 (n div 16)) = n div 16"
      using "1.IH"(2) False "1.prems" by simp
    moreover have "hexCharValue (hexDigit (n mod 16)) = n mod 16"
      by (rule hexCharValue_hexDigit) simp_all
    ultimately show ?thesis using False "1.prems"
      by (simp add: toString16.simps[of n] hexValue_snoc)
  qed
qed

lemma hexValue_leading_zeros: "hexValue (replicate k (CHR ''0'') @ s) = hexValue s"
proof -
  have "foldl (\<lambda>acc c. 16 * acc + hexCharValue c) 0 (replicate k (CHR ''0'')) = 0"
    by (induction k) (simp_all add: hexCharValue_def)
  then show ?thesis by (simp add: hexValue_def)
qed

lemma strip0x_toLowerCase:
  assumes "isLikelyAddress to"
  shows "strip0x (toLowerCase to) = toLowerCase (drop 2 to)" "length (toLowerCase (drop 2 to)) = 40"
proof -
  define rest where "rest = drop 2 to"
  have "to = take 2 to @ drop 2 to" by simp
  then have t: "to = ''0x'' @ rest"
    using assms unfolding isLikelyAddress_def rest_def by metis
  have l: "length rest = 40"
    using assms unfolding isLikelyAddress_def rest_def by simp
  show "strip0x (toLowerCase to) = toLowerCase (drop 2 to)"
    unfolding t by (simp add: toLowerCase_def strip0x_def startsWith_def lowerChar_def)
  show "length (toLowerCase (drop 2 to))  = 40"
    unfolding t using l by (simp add: toLowerCase_def)
qed

text \<open>Below \<open>2 ^ 256\<close> the result is as the claim C5 describes it: selector, the
  lower-cased address left-padded to 64 digits, and a 64-digit word whose value is the
  amount. From \<open>2 ^ 256\<close> on the result is longer than the 138 characters of a
  transfer call.\<close>

lemma encodeUsdcTransfer_in_range:
  assumes "isLikelyAddress to" "0 < amount" "amount < 2 ^ 256"
  shows "\<exists>w. encodeUsdcTransfer to amount =
           Inr (''0x'' @ ''a9059cbb'' @ replicate 24 (CHR ''0'') @ toLowerCase (drop 2 to) @ w)
         \<and> length w = 64 \<and> hexValue w = amount"
proof -
  have "amount < 16 ^ 64" using assms(3) by simp
  then have len: "length (toString16 amount) \<le> 64"
    using length_toString16_le[of amount 64] assms(2) by simp
  let ?w = "bytes32Pad (toString16 amount)"
  have w1: "length ?w = 64" using len by (simp add: bytes32Pad_def padStart_def)
  have w2: "hexValue ?w = amount"
    using assms(2) by (simp add: bytes32Pad_def padStart_def hexValue_leading_zeros hexValue_toString16)
  have "encodeUsdcTransfer to amount =
           Inr (''0x'' @ ''a9059cbb'' @ replicate 24 (CHR ''0'') @ toLowerCase (drop 2 to) @ ?w)"
    using assms(1,2) strip0x_toLowerCase[OF assms(1)]
    by (simp add: encodeUsdcTransfer_def Let_def bytes32Pad_def padStart_def)
  then show ?thesis using w1 w2 by blast
qed

lemma encodeUsdcTransfer_above_range:
  assumes "isLikelyAddress to" "2 ^ 256 \<le> amount"
  shows "\<exists>r. encodeUsdcTransfer to amount = Inr r \<and> 138 < length r"
proof -
  have "(16::int) ^ 64 \<le> amount" using assms(2) by simp
  then have len: "64 < length (toString16 amount)" by (rule length_toString16_gt)
  have pos: "0 < amount" using assms(2) by (smt (verit) zero_less_power)
  show ?thesis
    using assms(1) pos len strip0x_toLowerCase[OF assms(1)]
    by (simp add: encodeUsdcTransfer_def Let_def bytes32Pad_def padStart_def)
qed

subsection \<open>Depth of the recursion\<close>

lemma maxDepth_bounds: "3 \<le> maxDepth p \<and> maxDepth p \<le> 10"
  by (simp add: maxDepth_def clamp_def)


lemma splitLoop_nested:
  assumes "\<And>x y ang len thick r.
     depthOf (fst (branch p x y ang len thick (depth + 1) r)) = depth + 1
     \<and> nested (maxDepth p) (fst (branch p x y ang len thick (depth + 1) r))"
  shows "list_all (\<lambda>k. depthOf k = depth + 1 \<and> nested (maxDepth p) k)
           (fst (splitLoop p ex ey a len thick depth i splits r))"
proof (induction "splits - i" arbitrary: i r)
  case 0
  then show ?case by (simp add: splitLoop.simps[of p ex ey a len thick depth i splits r])
next
  case (Suc k)
  then have k: "k = splits - (i + 1)" and lt: "i < splits" by auto
  obtain nA nL nT r1 where sa: "splitArgs p a len thick depth i r = ((nA, nL, nT), r1)"
    by (metis prod.exhaust)
  obtain kid r2 where br: "branch p ex ey nA nL nT (depth + 1) r1 = (kid, r2)"
    by (metis prod.exhaust)
  obtain rest r3 where sl: "splitLoop p ex ey a len thick depth (i + 1) splits r2 = (rest, r3)"
    by (metis prod.exhaust)
  have kid: "depthOf kid = depth + 1 \<and> nested (maxDepth p) kid"
    using assms[of ex ey nA nL nT r1] br by simp
  have rest: "list_all (\<lambda>k. depthOf k = depth + 1 \<and> nested (maxDepth p) k) rest"
    using Suc.hyps(1)[OF k, of r2] sl by simp
  show ?case
    using lt sa br sl kid rest
    by (simp add: splitLoop.simps[of p ex ey a len thick depth i splits r])
qed

lemma branch_nested:
  "nat (maxDepth p - depth) \<le> n \<Longrightarrow> depth \<le> maxDepth p \<Longrightarrow>
     depthOf (fst (branch p x y ang len thick depth r0)) = depth
     \<and> nested (maxDepth p) (fst (branch p x y ang len thick depth r0))"
proof (induction n arbitrary: x y ang len thick depth r0)
  case 0
  then have top: "maxDepth p \<le> depth" by simp
  obtain a ex ey stroke r1 where bs: "branchStroke p x y ang len thick depth r0 = ((a, ex, ey, stroke), r1)"
    by (metis prod.exhaust)
  obtain leaves r2 where bl: "branchLeaves p ex ey depth r1 = (leaves, r2)"
    by (metis prod.exhaust)
  show ?case using top bs bl "0.prems"(2)
    by (simp add: branch.simps[of p x y ang len thick depth r0])
next
  case (Suc n)
  obtain a ex ey stroke r1 where bs: "branchStroke p x y ang len thick depth r0 = ((a, ex, ey, stroke), r1)"
    by (metis prod.exhaust)
  obtain leaves r2 where bl: "branchLeaves p ex ey depth r1 = (leaves, r2)"
    by (metis prod.exhaust)
  show ?case
  proof (cases "maxDepth p \<le> depth")
    case True
    then show ?thesis using bs bl Suc.prems(2)
      by (simp add: branch.simps[of p x y ang len thick depth r0])
  next
    case False
    then have below: "depth + 1 \<le> maxDepth p" and m: "nat (maxDepth p - (depth + 1)) \<le> n"
      using Suc.prems by auto
    have ih: "\<And>x y ang len thick r.
        depthOf (fst (branch p x y ang len thick (depth + 1) r)) = depth + 1
        \<and> nested (maxDepth p) (fst (branch p x y ang len thick (depth + 1) r))"
      using Suc.IH[OF m below] by blast
    obtain splits r3 where sc: "splitCount depth r2 = (splits, r3)"
      by (metis prod.exhaust)
    obtain kids r4 where sl: "splitLoop p ex ey a len thick depth 0 splits r3 = (kids, r4)"
      by (metis prod.exhaust)
    obtain u5 r5 where u: "rng r4 = (u5, r5)"
      by (metis prod.exhaust)
    obtain nA nL nT r6 where sa: "sideArgs a len thick r5 = ((nA, nL, nT), r6)"
      by (metis prod.exhaust)
    obtain extra r7 where ex: "branch p ex ey nA nL nT (depth + 1) r6 = (extra, r7)"
      by (metis prod.exhaust)
    have kids: "list_all (\<lambda>k. depthOf k = depth + 1 \<and> nested (maxDepth p) k) kids"
      using splitLoop_nested[of p depth ex ey a len thick 0 splits r3, OF ih] sl by simp
    have extra: "depthOf extra = depth + 1 \<and> nested (maxDepth p) extra"
      using ih[of ex ey nA nL nT r6] ex by simp
    show ?thesis
      using False bs bl sc sl u sa ex kids extra
      by (simp add: branch.simps[of p x y ang len thick depth r0])
  qed
qed


subsection \<open>Independence of the breeze\<close>

lemma params_breeze:
  "maxDepth (p\<lparr>breeze := b\<rparr>) = maxDepth p"
  "leafiness (p\<lparr>breeze := b\<rparr>) = leafiness p"
  "bloomChance (p\<lparr>breeze := b\<rparr>) = bloomChance p"
  "wither (p\<lparr>breeze := b\<rparr>) = wither p"
  "inkBase (p\<lparr>breeze := b\<rparr>) = inkBase p"
  "seedState (p\<lparr>breeze := b\<rparr>) = seedState p"
  by (simp_all add: maxDepth_def leafiness_def bloomChance_def wither_def inkBase_def seedState_def)

lemma leafLoop_breeze:
  "map_prod (map eraseX) id (leafLoop (p\<lparr>breeze := b\<rparr>) ex' ey n r)
     = map_prod (map eraseX) id (leafLoop p ex ey n r)"
proof (induction n arbitrary: r)
  case 0
  show ?case by simp
next
  case (Suc n)
  have f: "\<And>r. map eraseX (fst (leafLoop (p\<lparr>breeze := b\<rparr>) ex' ey n r)) = map eraseX (fst (leafLoop p ex ey n r))"
    using Suc.IH by (metis fst_map_prod)
  have g: "\<And>r. snd (leafLoop (p\<lparr>breeze := b\<rparr>) ex' ey n r) = snd (leafLoop p ex ey n r)"
    using Suc.IH by (metis snd_map_prod id_apply)
  show ?case
    by (simp add: Let_def case_prod_beta params_breeze f g split: option.splits)
qed

lemma branchStroke_breeze:
  "\<exists>a ex ex' ey s s' r1.
     branchStroke p x y ang len thick d r = ((a, ex, ey, s), r1)
     \<and> branchStroke (p\<lparr>breeze := b\<rparr>) x' y ang len thick d r = ((a, ex', ey, s'), r1)
     \<and> eraseX s' = eraseX s"
  by (simp add: branchStroke_def Let_def case_prod_beta params_breeze)

lemma branchLeaves_breeze:
  "map_prod (map eraseX) id (branchLeaves (p\<lparr>breeze := b\<rparr>) ex' ey d r)
     = map_prod (map eraseX) id (branchLeaves p ex ey d r)"
  unfolding branchLeaves_def params_breeze Let_def case_prod_beta
  by (simp del: leafLoop.simps add: leafLoop_breeze[where ex=ex and ex'=ex'])

lemma splitArgs_breeze:
  "splitArgs (p\<lparr>breeze := b\<rparr>) a len thick d i r = splitArgs p a len thick d i r"
  by (simp add: splitArgs_def params_breeze)

lemma splitLoop_breeze:
  assumes "\<And>x x' y ang len thick r.
     map_prod eraseTree id (branch (p\<lparr>breeze := b\<rparr>) x' y ang len thick (depth + 1) r)
       = map_prod eraseTree id (branch p x y ang len thick (depth + 1) r)"
  shows "map_prod (map eraseTree) id (splitLoop (p\<lparr>breeze := b\<rparr>) ex' ey a len thick depth i splits r)
           = map_prod (map eraseTree) id (splitLoop p ex ey a len thick depth i splits r)"
proof (induction "splits - i" arbitrary: i r)
  case 0
  then show ?case
    by (simp add: splitLoop.simps[of p ex ey a len thick depth i splits r]
                  splitLoop.simps[of "p\<lparr>breeze := b\<rparr>" ex' ey a len thick depth i splits r])
next
  case (Suc k)
  then have k: "k = splits - (i + 1)" and lt: "i < splits" by auto
  obtain nA nL nT r1 where sa: "splitArgs p a len thick depth i r = ((nA, nL, nT), r1)"
    by (metis prod.exhaust)
  obtain kid r2 where br: "branch p ex ey nA nL nT (depth + 1) r1 = (kid, r2)"
    by (metis prod.exhaust)
  obtain kid' r2' where br': "branch (p\<lparr>breeze := b\<rparr>) ex' ey nA nL nT (depth + 1) r1 = (kid', r2')"
    by (metis prod.exhaust)
  have kid: "eraseTree kid' = eraseTree kid" "r2' = r2"
    using assms[where x'=ex' and y=ey and ang=nA and len=nL and thick=nT and r=r1 and x=ex] br br' by simp_all
  obtain rest r3 where sl: "splitLoop p ex ey a len thick depth (i + 1) splits r2 = (rest, r3)"
    by (metis prod.exhaust)
  obtain rest' r3' where sl': "splitLoop (p\<lparr>breeze := b\<rparr>) ex' ey a len thick depth (i + 1) splits r2 = (rest', r3')"
    by (metis prod.exhaust)
  have rest: "map eraseTree rest' = map eraseTree rest" "r3' = r3"
    using Suc.hyps(1)[OF k, of r2] sl sl' by simp_all
  show ?case
    using lt sa br br' sl sl' kid rest
    by (simp add: splitLoop.simps[of p ex ey a len thick depth i splits r]
                  splitLoop.simps[of "p\<lparr>breeze := b\<rparr>" ex' ey a len thick depth i splits r]
                  splitArgs_breeze)
qed

lemma branch_breeze:
  "nat (maxDepth p - depth) \<le> n \<Longrightarrow>
     map_prod eraseTree id (branch (p\<lparr>breeze := b\<rparr>) x' y ang len thick depth r0)
       = map_prod eraseTree id (branch p x y ang len thick depth r0)"
proof (induction n arbitrary: x x' y ang len thick depth r0)
  case 0
  then have top: "maxDepth p \<le> depth" by simp
  obtain a ex ex' ey s s' r1 where
    bs: "branchStroke p x y ang len thick depth r0 = ((a, ex, ey, s), r1)" and
    bs': "branchStroke (p\<lparr>breeze := b\<rparr>) x' y ang len thick depth r0 = ((a, ex', ey, s'), r1)" and
    ss: "eraseX s' = eraseX s"
    using branchStroke_breeze[where p=p and x=x and y=y and ang=ang and len=len and thick=thick and d=depth and r=r0 and b=b and x'=x'] by blast
  obtain leaves r2 where bl: "branchLeaves p ex ey depth r1 = (leaves, r2)"
    by (metis prod.exhaust)
  obtain leaves' r2' where bl': "branchLeaves (p\<lparr>breeze := b\<rparr>) ex' ey depth r1 = (leaves', r2')"
    by (metis prod.exhaust)
  have lv: "map eraseX leaves' = map eraseX leaves" "r2' = r2"
    using branchLeaves_breeze[where p=p and b=b and ex'=ex' and ey=ey and d=depth and r=r1 and ex=ex] bl bl' by simp_all
  show ?case using top bs bs' ss bl bl' lv
    by (simp add: branch.simps[of p x y ang len thick depth r0]
                  branch.simps[of "p\<lparr>breeze := b\<rparr>" x' y ang len thick depth r0] params_breeze)
next
  case (Suc n)
  obtain a ex ex' ey s s' r1 where
    bs: "branchStroke p x y ang len thick depth r0 = ((a, ex, ey, s), r1)" and
    bs': "branchStroke (p\<lparr>breeze := b\<rparr>) x' y ang len thick depth r0 = ((a, ex', ey, s'), r1)" and
    ss: "eraseX s' = eraseX s"
    using branchStroke_breeze[where p=p and x=x and y=y and ang=ang and len=len and thick=thick and d=depth and r=r0 and b=b and x'=x'] by blast
  obtain leaves r2 where bl: "branchLeaves p ex ey depth r1 = (leaves, r2)"
    by (metis prod.exhaust)
  obtain leaves' r2' where bl': "branchLeaves (p\<lparr>breeze := b\<rparr>) ex' ey depth r1 = (leaves', r2')"
    by (metis prod.exhaust)
  have lv: "map eraseX leaves' = map eraseX leaves" "r2' = r2"
    using branchLeaves_breeze[where p=p and b=b and ex'=ex' and ey=ey and d=depth and r=r1 and ex=ex] bl bl' by simp_all
  show ?case
  proof (cases "maxDepth p \<le> depth")
    case True
    then show ?thesis using bs bs' ss bl bl' lv
      by (simp add: branch.simps[of p x y ang len thick depth r0]
                    branch.simps[of "p\<lparr>breeze := b\<rparr>" x' y ang len thick depth r0] params_breeze)
  next
    case False
    then have m: "nat (maxDepth p - (depth + 1)) \<le> n"
      using Suc.prems by auto
    have ih: "\<And>x x' y ang len thick r.
        map_prod eraseTree id (branch (p\<lparr>breeze := b\<rparr>) x' y ang len thick (depth + 1) r)
          = map_prod eraseTree id (branch p x y ang len thick (depth + 1) r)"
      using Suc.IH[OF m] by blast
    obtain splits r3 where sc: "splitCount depth r2 = (splits, r3)"
      by (metis prod.exhaust)
    obtain kids r4 where sl: "splitLoop p ex ey a len thick depth 0 splits r3 = (kids, r4)"
      by (metis prod.exhaust)
    obtain kids' r4' where sl': "splitLoop (p\<lparr>breeze := b\<rparr>) ex' ey a len thick depth 0 splits r3 = (kids', r4')"
      by (metis prod.exhaust)
    have kd: "map eraseTree kids' = map eraseTree kids" "r4' = r4"
      using splitLoop_breeze[where p=p and b=b and depth=depth and ex'=ex' and ey=ey and a=a and len=len and thick=thick and i=0 and splits=splits and r=r3 and ex=ex, OF ih] sl sl' by simp_all
    obtain u5 r5 where u: "rng r4 = (u5, r5)"
      by (metis prod.exhaust)
    obtain nA nL nT r6 where sa: "sideArgs a len thick r5 = ((nA, nL, nT), r6)"
      by (metis prod.exhaust)
    obtain extra r7 where ex: "branch p ex ey nA nL nT (depth + 1) r6 = (extra, r7)"
      by (metis prod.exhaust)
    obtain extra' r7' where ex': "branch (p\<lparr>breeze := b\<rparr>) ex' ey nA nL nT (depth + 1) r6 = (extra', r7')"
      by (metis prod.exhaust)
    have xt: "eraseTree extra' = eraseTree extra" "r7' = r7"
      using ih[where x'=ex' and y=ey and ang=nA and len=nL and thick=nT and r=r6 and x=ex] ex ex' by simp_all
    show ?thesis
      using False bs bs' ss bl bl' lv sc sl sl' kd u sa ex ex' xt
      by (simp add: branch.simps[of p x y ang len thick depth r0]
                    branch.simps[of "p\<lparr>breeze := b\<rparr>" x' y ang len thick depth r0] params_breeze)
  qed
qed


lemma fallingLoop_breeze:
  "fallingLoop w h (p\<lparr>breeze := b\<rparr>) n r = fallingLoop w h p n r"
  by (induction n arbitrary: r) (simp_all add: params_breeze Let_def case_prod_beta)

lemma trunkStroke_breeze:
  "eraseX (trunkStroke w h (p\<lparr>breeze := b\<rparr>) i) = eraseX (trunkStroke w h p i)"
  by (simp add: trunkStroke_def Let_def params_breeze)

text \<open>
  C4. Two render passes whose parameters differ only in \<open>breeze\<close> start the generator in
  the same state, make the same calls of \<open>branch\<close> (same depths, same children, same
  leaves and blooms, same angles, lengths, widths and vertical coordinates: everything
  but the horizontal coordinates), draw the same falling leaves, and leave the generator
  in the same state; the trunk differs in its horizontal coordinates only.
\<close>

theorem renderBonsai_breeze_topology:
  "map eraseTree (boughs (renderBonsai w h (p\<lparr>breeze := b\<rparr>))) = map eraseTree (boughs (renderBonsai w h p))
   \<and> map eraseX (trunk (renderBonsai w h (p\<lparr>breeze := b\<rparr>))) = map eraseX (trunk (renderBonsai w h p))
   \<and> fallen (renderBonsai w h (p\<lparr>breeze := b\<rparr>)) = fallen (renderBonsai w h p)
   \<and> rngAfter (renderBonsai w h (p\<lparr>breeze := b\<rparr>)) = rngAfter (renderBonsai w h p)
   \<and> seedState (p\<lparr>breeze := b\<rparr>) = seedState p"
proof -
  let ?p' = "p\<lparr>breeze := b\<rparr>"
  define trunkBase where "trunkBase = 10 + richness p * 24"
  define startY where "startY = h * 0.8 + 8 - h * 0.58 * 0.55"
  define baseLen where "baseLen = 70 + growth p * 10"
  define sx where "sx = w * 0.5 + bend p * 0.16"
  define sx' where "sx' = w * 0.5 + bend ?p' * 0.16"
  define r0 where "r0 = seedState p"
  obtain b1 r1 where c1: "branch p sx startY (pi / 2 - 0.3) baseLen (trunkBase * 0.55) 1 r0 = (b1, r1)"
    by (metis prod.exhaust)
  obtain b1' r1' where c1': "branch ?p' sx' startY (pi / 2 - 0.3) baseLen (trunkBase * 0.55) 1 r0 = (b1', r1')"
    by (metis prod.exhaust)
  have e1: "eraseTree b1' = eraseTree b1" "r1' = r1"
    using branch_breeze[where p=p and depth=1 and n="nat (maxDepth p - 1)" and b=b and x'=sx' and x=sx
        and y=startY and ang="pi / 2 - 0.3" and len=baseLen and thick="trunkBase * 0.55" and ?r0.0=r0]
      c1 c1' by simp_all
  obtain b2 r2 where c2: "branch p sx startY (pi / 2 + 0.3) (baseLen * 0.96) (trunkBase * 0.55) 1 r1 = (b2, r2)"
    by (metis prod.exhaust)
  obtain b2' r2' where c2': "branch ?p' sx' startY (pi / 2 + 0.3) (baseLen * 0.96) (trunkBase * 0.55) 1 r1 = (b2', r2')"
    by (metis prod.exhaust)
  have e2: "eraseTree b2' = eraseTree b2" "r2' = r2"
    using branch_breeze[where p=p and depth=1 and n="nat (maxDepth p - 1)" and b=b and x'=sx' and x=sx
        and y=startY and ang="pi / 2 + 0.3" and len="baseLen * 0.96" and thick="trunkBase * 0.55" and ?r0.0=r1]
      c2 c2' by simp_all
  have R: "renderBonsai w h p =
      \<lparr>trunk = map (trunkStroke w h p) [0..<10], boughs = [b1, b2],
       fallen = fst (fallingLoop w h p 3 r2), rngAfter = snd (fallingLoop w h p 3 r2)\<rparr>"
    using c1 c2
    by (simp add: renderBonsai_def Let_def case_prod_beta trunkBase_def startY_def baseLen_def sx_def r0_def
             del: fallingLoop.simps)
  have R': "renderBonsai w h ?p' =
      \<lparr>trunk = map (trunkStroke w h ?p') [0..<10], boughs = [b1', b2'],
       fallen = fst (fallingLoop w h ?p' 3 r2), rngAfter = snd (fallingLoop w h ?p' 3 r2)\<rparr>"
    using c1' c2' e1(2) e2(2)
    by (simp add: renderBonsai_def Let_def case_prod_beta trunkBase_def startY_def baseLen_def sx'_def r0_def
                  params_breeze
             del: fallingLoop.simps)
  show ?thesis
    unfolding R R' using e1 e2
    by (simp add: fallingLoop_breeze trunkStroke_breeze params_breeze del: fallingLoop.simps upt.simps)
qed

lemma nested_nesting:
  "nested hi t \<Longrightarrow> int (nesting t) \<le> hi - depthOf t + 1"
proof (induction t)
  case (Call d cs kids)
  have d: "d \<le> hi" using Call.prems by simp
  have "foldr max (map nesting kids) 0 \<le> nat (hi - d)"
    using Call
  proof (induction kids)
    case Nil
    then show ?case by simp
  next
    case (Cons k ks)
    have k1: "depthOf k = d + 1" "nested hi k" using Cons.prems(2) by simp_all
    have "int (nesting k) \<le> hi - depthOf k + 1" using Cons.prems(1)[of k] k1 by simp
    then have a: "nesting k \<le> nat (hi - d)" using k1 by simp
    have b: "foldr max (map nesting ks) 0 \<le> nat (hi - d)"
      using Cons.IH Cons.prems by simp
    show ?case using a b by simp
  qed
  then show ?case using d by simp
qed

text \<open>
  C8. \<open>maxDepth\<close> is \<open>clamp(3 + floor(growth / 1.5), 3, 10)\<close>, between 3 and 10; both base
  calls of \<open>branch\<close> have depth 1, no call they lead to has a depth above \<open>maxDepth\<close>, each
  call is one deeper than its caller, and no chain of calls is longer than 10. \<open>branch\<close>
  is a total function: every pass returns.
\<close>

theorem branch_depth_bounded:
  "maxDepth p = clamp (3 + \<lfloor>growth p / 1.5\<rfloor>) 3 10
   \<and> 3 \<le> maxDepth p \<and> maxDepth p \<le> 10
   \<and> list_all (\<lambda>t. depthOf t = 1 \<and> nested (maxDepth p) t \<and> nesting t \<le> 10)
        (boughs (renderBonsai w h p))"
proof -
  have mb: "3 \<le> maxDepth p \<and> maxDepth p \<le> 10" by (rule maxDepth_bounds)
  have one: "(1::int) \<le> maxDepth p" using mb by simp
  have br: "\<And>x y ang len thick r. depthOf (fst (branch p x y ang len thick 1 r)) = 1
       \<and> nested (maxDepth p) (fst (branch p x y ang len thick 1 r))
       \<and> nesting (fst (branch p x y ang len thick 1 r)) \<le> 10"
  proof -
    fix x y ang len thick r
    have a: "depthOf (fst (branch p x y ang len thick 1 r)) = 1
       \<and> nested (maxDepth p) (fst (branch p x y ang len thick 1 r))"
      using branch_nested[where n="nat (maxDepth p - 1)" and depth=1, OF _ one] by simp
    then have "int (nesting (fst (branch p x y ang len thick 1 r))) \<le> maxDepth p - 1 + 1"
      using nested_nesting[of "maxDepth p" "fst (branch p x y ang len thick 1 r)"] by simp
    then show "depthOf (fst (branch p x y ang len thick 1 r)) = 1
       \<and> nested (maxDepth p) (fst (branch p x y ang len thick 1 r))
       \<and> nesting (fst (branch p x y ang len thick 1 r)) \<le> 10"
      using a mb by simp
  qed
  have "list_all (\<lambda>t. depthOf t = 1 \<and> nested (maxDepth p) t \<and> nesting t \<le> 10)
        (boughs (renderBonsai w h p))"
    using br
    by (simp add: renderBonsai_def Let_def case_prod_beta del: fallingLoop.simps)
  then show ?thesis using mb by (simp add: maxDepth_def)
qed

subsection \<open>Deterministic PRNG\<close>

text \<open>The rounding of the state above \<open>2 ^ 53\<close>, where doubles are two apart and then
  four apart: to the nearest, a tie to the even significand. And the first call of a
  generator seeded with 0, which returns 1144304738 / 2^32 (0.2664...).\<close>

lemma fl64_rounds_to_nearest_even:
  "fl64 (2 ^ 53 - 1) = 2 ^ 53 - 1
   \<and> fl64 (2 ^ 53 + 1) = 2 ^ 53
   \<and> fl64 (2 ^ 53 + 3) = 2 ^ 53 + 4
   \<and> fl64 (2 ^ 54 + 2) = 2 ^ 54
   \<and> fl64 (2 ^ 54 + 5) = 2 ^ 54 + 4
   \<and> fl64 (2 ^ 54 + 6) = 2 ^ 54 + 8
   \<and> fl64 (2 ^ 54 - 1) = 2 ^ 54
   \<and> fl64 (- (2 ^ 53) - 3) = - (2 ^ 53) - 4"
  by code_simp

lemma mulberry32_call_seed_0:
  "mulberry32_call (A 0) = (1144304738 / 4294967296, A 1831565813)"
  by code_simp

text \<open>Every result is an unsigned 32-bit value over \<open>2 ^ 32\<close>.\<close>

lemma unit_of_word:
  "0 \<le> (of_int (uint (w :: 32 word)) :: rat) / 4294967296
   \<and> (of_int (uint w) :: rat) / 4294967296 < 1"
proof -
  have "uint w < 4294967296" using uint_bounded[of w] by simp
  then have a: "(of_int (uint w) :: rat) < 4294967296"
    by (metis of_int_less_iff of_int_numeral)
  have "0 \<le> uint w" by simp
  then have b: "(0::rat) \<le> of_int (uint w)"
    by (metis of_int_0_le_iff)
  show ?thesis using a b by simp
qed

lemma mulberry32_call_range:
  "0 \<le> fst (mulberry32_call s) \<and> fst (mulberry32_call s) < 1"
proof -
  obtain out :: "32 word" where "fst (mulberry32_call s) = of_int (uint out) / 4294967296"
    by (simp add: mulberry32_call_def Let_def)
  then show ?thesis using unit_of_word[of out] by simp
qed

lemma take_draws: "take N (draws n s) = draws (min N n) s"
proof (induction n arbitrary: N s)
  case 0
  then show ?case by simp
next
  case (Suc n)
  show ?case
  proof (cases N)
    case 0
    then show ?thesis by simp
  next
    case (Suc M)
    then show ?thesis using Suc.IH[of M] by (simp add: case_prod_beta Let_def)
  qed
qed

lemma runCalls_two:
  assumes "g1 \<noteq> g2"
  shows "g1 < length h \<Longrightarrow> g2 < length h \<Longrightarrow>
     outputsOf g1 (fst (runCalls (map (\<lambda>b. if b then g1 else g2) sched) h))
       = draws (length (filter (\<lambda>b. b) sched)) (h ! g1)
     \<and> outputsOf g2 (fst (runCalls (map (\<lambda>b. if b then g1 else g2) sched) h))
       = draws (length (filter Not sched)) (h ! g2)
     \<and> list_all (\<lambda>e. 0 \<le> snd e \<and> snd e < 1) (fst (runCalls (map (\<lambda>b. if b then g1 else g2) sched) h))"
proof (induction sched arbitrary: h)
  case Nil
  then show ?case by (simp add: outputsOf_def)
next
  case (Cons c sched)
  let ?g = "if c then g1 else g2"
  obtain u s' where st: "mulberry32_call (h ! ?g) = (u, s')" by (metis prod.exhaust)
  let ?h1 = "h[?g := s']"
  have cg: "callGen ?g h = (u, ?h1)" using st by (simp add: callGen_def)
  have ur: "0 \<le> u \<and> u < 1" using mulberry32_call_range[of "h ! ?g"] st by simp
  have ih: "outputsOf g1 (fst (runCalls (map (\<lambda>b. if b then g1 else g2) sched) ?h1))
       = draws (length (filter (\<lambda>b. b) sched)) (?h1 ! g1)
     \<and> outputsOf g2 (fst (runCalls (map (\<lambda>b. if b then g1 else g2) sched) ?h1))
       = draws (length (filter Not sched)) (?h1 ! g2)
     \<and> list_all (\<lambda>e. 0 \<le> snd e \<and> snd e < 1) (fst (runCalls (map (\<lambda>b. if b then g1 else g2) sched) ?h1))"
    using Cons.IH[of ?h1] Cons.prems by simp
  show ?case
  proof (cases c)
    case True
    then show ?thesis using ih cg st ur assms Cons.prems
      by (simp add: outputsOf_def case_prod_beta Let_def)
  next
    case False
    then show ?thesis using ih cg st ur assms Cons.prems
      by (simp add: outputsOf_def case_prod_beta Let_def)
  qed
qed

text \<open>
  C7. Two generators made by \<open>mulberry32\<close> from the same seed, called in any interleaving
  \<open>sched\<close>: each returns the sequence \<open>draws\<close> of that seed, so their first \<open>N\<close> outputs
  agree for every \<open>N\<close>, and every output lies in [0,1).
\<close>

theorem mulberry32_same_seed_same_outputs:
  "(let (g1, h1) = mulberry32 s h0;
        (g2, h2) = mulberry32 s h1;
        tr = fst (runCalls (map (\<lambda>b. if b then g1 else g2) sched) h2);
        n1 = length (filter (\<lambda>b. b) sched);
        n2 = length (filter Not sched)
    in outputsOf g1 tr = draws n1 s
       \<and> outputsOf g2 tr = draws n2 s
       \<and> take N (outputsOf g1 tr) = draws (min N n1) s
       \<and> take N (outputsOf g2 tr) = draws (min N n2) s
       \<and> list_all (\<lambda>e. 0 \<le> snd e \<and> snd e < 1) tr)"
proof -
  let ?g1 = "length h0" and ?g2 = "Suc (length h0)"
  let ?h2 = "h0 @ [s] @ [s]"
  have ne: "?g1 \<noteq> ?g2" by simp
  have l: "?g1 < length ?h2" "?g2 < length ?h2" by simp_all
  have v: "?h2 ! ?g1 = s" "?h2 ! ?g2 = s" by (simp_all add: nth_append)
  from runCalls_two[OF ne l, of sched] v
  show ?thesis
    by (simp add: mulberry32_def Let_def take_draws cong: if_cong)
qed

text \<open>The theorem for C7 at seed 0 and the interleaving first, second, second, first:
  both generators return 1144304738 / 2^32, then 1416247 / 2^32.\<close>

theorem mulberry32_same_seed_same_outputs_witness:
  "(let (g1, h1) = mulberry32 (A 0) [];
        (g2, h2) = mulberry32 (A 0) h1;
        tr = fst (runCalls (map (\<lambda>b. if b then g1 else g2) [True, False, False, True]) h2);
        n1 = length (filter (\<lambda>b. b) [True, False, False, True]);
        n2 = length (filter Not [True, False, False, True])
    in outputsOf g1 tr = draws n1 (A 0)
       \<and> outputsOf g2 tr = draws n2 (A 0)
       \<and> take 2 (outputsOf g1 tr) = draws (min 2 n1) (A 0)
       \<and> take 2 (outputsOf g2 tr) = draws (min 2 n2) (A 0)
       \<and> list_all (\<lambda>e. 0 \<le> snd e \<and> snd e < 1) tr)
   \<and> draws 2 (A 0) = [1144304738 / 4294967296, 1416247 / 4294967296]"
proof -
  have d: "draws 2 (A 0) = [1144304738 / 4294967296, 1416247 / 4294967296]"
    by code_simp
  show ?thesis
    using mulberry32_same_seed_same_outputs[of "A 0" "[]" "[True, False, False, True]" 2] d
    by blast
qed

text \<open>The theorem for C4 at one set of parameters (growth 4), breeze 0.5 against
  breeze 1.\<close>

theorem renderBonsai_breeze_topology_witness:
  "map eraseTree (boughs (renderBonsai 300 300
      (\<lparr>seed = ''0x5eC6AF0798b25C563B102d3469971f1a8d598121'', richness = 0.5, activity = 0.5,
        growth = 4, health = 1, breeze = 0.5, friendHue = None\<rparr>\<lparr>breeze := 1\<rparr>)))
   = map eraseTree (boughs (renderBonsai 300 300
      \<lparr>seed = ''0x5eC6AF0798b25C563B102d3469971f1a8d598121'', richness = 0.5, activity = 0.5,
        growth = 4, health = 1, breeze = 0.5, friendHue = None\<rparr>))"
  using renderBonsai_breeze_topology[where w=300 and h=300 and b=1 and
      p="\<lparr>seed = ''0x5eC6AF0798b25C563B102d3469971f1a8d598121'', richness = 0.5, activity = 0.5,
        growth = 4, health = 1, breeze = 0.5, friendHue = None\<rparr>"]
  by blast

text \<open>The theorem for C8 there: the maximum depth is 5, and the two base calls keep to
  it.\<close>

theorem branch_depth_bounded_witness:
  "maxDepth \<lparr>seed = ''0x5eC6AF0798b25C563B102d3469971f1a8d598121'', richness = 0.5, activity = 0.5,
        growth = 4, health = 1, breeze = 0.5, friendHue = None\<rparr> = 5
   \<and> list_all (\<lambda>t. depthOf t = 1 \<and> nested 5 t \<and> nesting t \<le> 10)
        (boughs (renderBonsai 300 300
          \<lparr>seed = ''0x5eC6AF0798b25C563B102d3469971f1a8d598121'', richness = 0.5, activity = 0.5,
            growth = 4, health = 1, breeze = 0.5, friendHue = None\<rparr>))"
proof -
  have m: "maxDepth \<lparr>seed = ''0x5eC6AF0798b25C563B102d3469971f1a8d598121'', richness = 0.5, activity = 0.5,
        growth = 4, health = 1, breeze = 0.5, friendHue = None\<rparr> = 5"
    by (simp add: maxDepth_def clamp_def)
  have t: "list_all (\<lambda>t. depthOf t = 1
          \<and> nested (maxDepth \<lparr>seed = ''0x5eC6AF0798b25C563B102d3469971f1a8d598121'', richness = 0.5,
               activity = 0.5, growth = 4, health = 1, breeze = 0.5, friendHue = None\<rparr>) t
          \<and> nesting t \<le> 10)
        (boughs (renderBonsai 300 300
          \<lparr>seed = ''0x5eC6AF0798b25C563B102d3469971f1a8d598121'', richness = 0.5, activity = 0.5,
            growth = 4, health = 1, breeze = 0.5, friendHue = None\<rparr>))"
    using branch_depth_bounded[where w=300 and h=300 and
      p="\<lparr>seed = ''0x5eC6AF0798b25C563B102d3469971f1a8d598121'', richness = 0.5, activity = 0.5,
        growth = 4, health = 1, breeze = 0.5, friendHue = None\<rparr>"]
    by blast
  from t[unfolded m] m show ?thesis by blast
qed


subsection \<open>Rounding to a double\<close>

text \<open>The double of a number that is not negative is not negative, and it is away from
  the number by at most one part in \<open>2\<^sup>5\<^sup>3\<close>.\<close>

lemma bitLength_bounds:
  "0 < n \<Longrightarrow> n < 2 ^ bitLength n \<and> 2 ^ bitLength n \<le> 2 * n"
proof (induction n rule: bitLength.induct)
  case (1 n)
  show ?case
  proof (cases "n div 2 = 0")
    case True
    then have "n = 1" using "1.prems" by presburger
    then show ?thesis by (simp add: bitLength.simps[of 1] bitLength.simps[of 0])
  next
    case False
    then have pos: "0 < n div 2" using "1.prems" by presburger
    have ih: "n div 2 < 2 ^ bitLength (n div 2) \<and> 2 ^ bitLength (n div 2) \<le> 2 * (n div 2)"
      using "1.IH" "1.prems" pos by simp
    have b: "bitLength n = Suc (bitLength (n div 2))"
      using "1.prems" by (simp add: bitLength.simps[of n])
    have "n < 2 * 2 ^ bitLength (n div 2)" using ih by presburger
    moreover have "2 * 2 ^ bitLength (n div 2) \<le> 2 * n" using ih by presburger
    ultimately show ?thesis using b by simp
  qed
qed

lemma roundHalfEven_le: "of_int (roundHalfEven m) \<le> m + 1 / 2"
proof -
  define f where "f = \<lfloor>m\<rfloor>"
  define d where "d = m - of_int f"
  have lo: "of_int f \<le> m" unfolding f_def by linarith
  have r: "roundHalfEven m = (if d < 1 / 2 then f else if 1 / 2 < d then f + 1 else if even f then f else f + 1)"
    by (simp add: roundHalfEven_def Let_def f_def d_def)
  consider "d < 1 / 2" | "\<not> d < 1 / 2" "even f \<and> \<not> 1 / 2 < d" | "\<not> d < 1 / 2" "\<not> (even f \<and> \<not> 1 / 2 < d)" by blast
  then show ?thesis
  proof cases
    case 1
    then have "roundHalfEven m = f" using r by simp
    then show ?thesis using lo by linarith
  next
    case 2
    then have "roundHalfEven m = f" using r by simp
    then show ?thesis using lo by linarith
  next
    case 3
    then have e: "roundHalfEven m = f + 1" using r by auto
    have "of_int f + 1 / 2 \<le> m" using 3(1) unfolding d_def by linarith
    then have "of_int (f + 1) \<le> m + 1 / 2" by simp
    then show ?thesis using e by simp
  qed
qed

lemma roundHalfEven_nonneg: "0 \<le> m \<Longrightarrow> 0 \<le> roundHalfEven m"
  unfolding roundHalfEven_def Let_def by auto

lemma roundHalfEven_ge: "m - 1 / 2 \<le> of_int (roundHalfEven m)"
proof -
  define f where "f = \<lfloor>m\<rfloor>"
  define d where "d = m - of_int f"
  have hi: "m < of_int f + 1" unfolding f_def by linarith
  have r: "roundHalfEven m = (if d < 1 / 2 then f else if 1 / 2 < d then f + 1 else if even f then f else f + 1)"
    by (simp add: roundHalfEven_def Let_def f_def d_def)
  consider "d < 1 / 2" | "\<not> d < 1 / 2" "1 / 2 < d \<or> odd f" | "\<not> d < 1 / 2" "\<not> 1 / 2 < d" "even f" by blast
  then show ?thesis
  proof cases
    case 1
    then have "roundHalfEven m = f" using r by simp
    moreover have "m - 1 / 2 \<le> of_int f" using 1 unfolding d_def by linarith
    ultimately show ?thesis by simp
  next
    case 2
    then have e: "roundHalfEven m = f + 1" using r by auto
    have "m - 1 / 2 \<le> of_int (f + 1)" using hi by simp
    then show ?thesis using e by simp
  next
    case 3
    then have "roundHalfEven m = f" using r by simp
    moreover have "m - 1 / 2 \<le> of_int f" using 3(2) unfolding d_def by linarith
    ultimately show ?thesis by simp
  qed
qed

lemma toDouble_bounds:
  assumes "0 \<le> x"
  shows "0 \<le> toDouble x \<and> toDouble x \<le> x * (1 + 1 / 2 ^ 53) \<and> x * (1 - 1 / 2 ^ 53) \<le> toDouble x"
proof (cases "x = 0")
  case True
  then show ?thesis by (simp add: toDouble_def)
next
  case False
  then have xp: "0 < x" using assms by simp
  obtain a b where q: "quotient_of x = (a, b)" by (metis prod.exhaust)
  have bp: "0 < b" using quotient_of_denom_pos[OF q] .
  have xq: "x = of_int a / of_int b" using quotient_of_div[OF q] .
  have ap: "0 < a" using xp xq bp by (simp add: zero_less_divide_iff)
  define la where "la = bitLength a"
  define lb where "lb = bitLength b"
  have A: "(2::int) ^ la \<le> 2 * a" using bitLength_bounds[OF ap] la_def by simp
  have B: "b < 2 ^ lb" using bitLength_bounds[OF bp] lb_def by simp
  define ulp0 :: rat where "ulp0 = 2 ^ la / 2 ^ (lb + 53)"
  define ulp :: rat where "ulp = (if 2 ^ 53 \<le> x / ulp0 then 2 * ulp0 else ulp0)"
  have u0p: "0 < ulp0" by (simp add: ulp0_def)
  have up: "0 < ulp" using u0p by (simp add: ulp_def)
  have Ar: "(2::rat) ^ la \<le> 2 * of_int a"
  proof -
    have "(of_int ((2::int) ^ la) :: rat) \<le> of_int (2 * a)" using A by (simp only: of_int_le_iff)
    then show ?thesis by simp
  qed
  have Br: "(of_int b :: rat) \<le> 2 ^ lb"
  proof -
    have "b \<le> 2 ^ lb" using B by simp
    then have "(of_int b :: rat) \<le> of_int ((2::int) ^ lb)" by (simp only: of_int_le_iff)
    then show ?thesis by simp
  qed
  have bpr: "(0::rat) < of_int b" using bp by simp
  have low0: "ulp0 * 2 ^ 52 \<le> x"
  proof -
    have "ulp0 * 2 ^ 52 = (2 ^ la / 2) / 2 ^ lb"
      by (simp add: ulp0_def power_add)
    also have "\<dots> \<le> (2 * of_int a / 2) / 2 ^ lb"
      by (intro divide_right_mono Ar) simp_all
    also have "\<dots> = of_int a / 2 ^ lb" by simp
    also have "\<dots> \<le> of_int a / of_int b"
      using Br bpr ap by (simp add: frac_le)
    finally show ?thesis using xq by simp
  qed
  have low: "ulp * 2 ^ 52 \<le> x"
  proof (cases "2 ^ 53 \<le> x / ulp0")
    case True
    then have "2 ^ 53 * ulp0 \<le> x" using u0p by (simp add: pos_le_divide_eq)
    then show ?thesis using True by (simp add: ulp_def)
  next
    case False
    then show ?thesis using low0 by (simp add: ulp_def)
  qed
  have half: "ulp / 2 \<le> x / 2 ^ 53"
  proof -
    have "ulp \<le> x / 2 ^ 52" using low by (simp add: pos_le_divide_eq)
    then have "ulp / 2 \<le> (x / 2 ^ 52) / 2" by simp
    then show ?thesis by simp
  qed
  have td: "toDouble x = of_int (roundHalfEven (x / ulp)) * ulp"
    using xp q by (simp add: toDouble_def Let_def ulp_def ulp0_def la_def lb_def)
  have mp: "0 \<le> x / ulp" using xp up by simp
  have r0: "0 \<le> roundHalfEven (x / ulp)" using roundHalfEven_nonneg[OF mp] .
  have lo: "0 \<le> toDouble x" unfolding td using r0 up by simp
  have "of_int (roundHalfEven (x / ulp)) * ulp \<le> (x / ulp + 1 / 2) * ulp"
    using roundHalfEven_le[of "x / ulp"] up by (simp add: mult_right_mono)
  also have "\<dots> = x + ulp / 2" using up by (simp add: algebra_simps)
  also have "\<dots> \<le> x + x / 2 ^ 53" using half by simp
  finally have "toDouble x \<le> x + x / 2 ^ 53" unfolding td .
  then have hi: "toDouble x \<le> x * (1 + 1 / 2 ^ 53)" by (simp add: algebra_simps)
  have "x - x / 2 ^ 53 \<le> x - ulp / 2" using half by simp
  also have "\<dots> = (x / ulp - 1 / 2) * ulp" using up by (simp add: algebra_simps)
  also have "\<dots> \<le> of_int (roundHalfEven (x / ulp)) * ulp"
    using roundHalfEven_ge[of "x / ulp"] up by (simp add: mult_right_mono)
  finally have "x - x / 2 ^ 53 \<le> toDouble x" unfolding td .
  then have dn: "x * (1 - 1 / 2 ^ 53) \<le> toDouble x" by (simp add: algebra_simps)
  show ?thesis using lo hi dn by simp
qed

lemma toDouble_succ_ge_1:
  assumes "1 \<le> g"
  shows "1 \<le> toDouble (g + 1)"
proof -
  have p: "0 \<le> g + 1" using assms by simp
  have "1 \<le> 2 * (1 - 1 / 2 ^ 53 :: rat)" by simp
  also have "\<dots> \<le> (g + 1) * (1 - 1 / 2 ^ 53)" using assms by (simp add: mult_right_mono)
  also have "\<dots> \<le> toDouble (g + 1)" using toDouble_bounds[OF p] by simp
  finally show ?thesis .
qed




text \<open>The hue is below 360.\<close>

lemma hue_range:
  assumes "0 \<le> q" "q \<le> 999999 / 1000000"
  shows "0 \<le> \<lfloor>toDouble (toDouble q * 360)\<rfloor> \<and> \<lfloor>toDouble (toDouble q * 360)\<rfloor> < 360"
proof -
  let ?e = "(1 + 1 / 2 ^ 53 :: rat)"
  have a: "0 \<le> toDouble q" "toDouble q \<le> q * ?e" using toDouble_bounds[OF assms(1)] by simp_all
  have y0: "0 \<le> toDouble q * 360" using a(1) by simp
  have b: "0 \<le> toDouble (toDouble q * 360)" "toDouble (toDouble q * 360) \<le> toDouble q * 360 * ?e"
    using toDouble_bounds[OF y0] by simp_all
  have "q * ?e \<le> (999999 / 1000000) * ?e" using assms(2) by (simp add: mult_right_mono)
  then have "toDouble q \<le> (999999 / 1000000) * ?e" using a(2) by linarith
  then have "toDouble q * 360 * ?e \<le> (999999 / 1000000) * ?e * 360 * ?e"
    by (simp add: mult_right_mono)
  also have "\<dots> < 360" by simp
  finally have "toDouble (toDouble q * 360) < 360" using b(2) by linarith
  then have "\<lfloor>toDouble (toDouble q * 360)\<rfloor> < 360" by (simp add: floor_less_iff)
  moreover have "0 \<le> \<lfloor>toDouble (toDouble q * 360)\<rfloor>" using b(1) by simp
  ultimately show ?thesis by simp
qed


subsection \<open>The game transaction\<close>

text \<open>\<open>sendGameTx\<close> writes the toast and the chain only, and returns \<open>true\<close> only after
  the wallet has accepted the call to the game contract.\<close>

lemma ensureBase_frame:
  "ensureBase w s = (ok, s') \<Longrightarrow>
     local s' = local s \<and> store s' = store s \<and> account s' = account s
     \<and> friendHueState s' = friendHueState s \<and> friendAddress s' = friendAddress s"
  by (auto simp: ensureBase_def showToast_def split: if_splits sum.splits)

lemma txCaught_frame:
  "txCaught m s = (ok, s') \<Longrightarrow>
     \<not> ok \<and> local s' = local s \<and> store s' = store s \<and> account s' = account s
     \<and> friendHueState s' = friendHueState s \<and> friendAddress s' = friendAddress s"
  by (auto simp: txCaught_def showToast_def Let_def split: if_splits)

lemma sendGameTx_frame:
  assumes "sendGameTx w i s = (ok, s')"
  shows "local s' = local s \<and> store s' = store s \<and> account s' = account s
     \<and> friendHueState s' = friendHueState s \<and> friendAddress s' = friendAddress s"
proof -
  obtain ok1 s1 where eb: "ensureBase w s = (ok1, s1)" by (metis prod.exhaust)
  note f1 = ensureBase_frame[OF eb]
  show ?thesis
    using assms eb f1
    by (auto simp: sendGameTx_def showToast_def Let_def
             split: if_splits sum.splits error.splits dest!: txCaught_frame)
qed

lemma sendGameTx_sent:
  assumes "sendGameTx w i s = (True, s')"
  shows "\<exists>call. sendCallsReply w call = Inr () \<and> target call = GAME_CONTRACT
           \<and> encodeLogAction (intentTag i) None = Inr (callData call)"
proof -
  obtain ok1 s1 where eb: "ensureBase w s = (ok1, s1)" by (metis prod.exhaust)
  show ?thesis
    using assms eb
    by (auto simp: sendGameTx_def showToast_def Let_def
             split: if_splits sum.splits error.splits dest!: txCaught_frame)
qed

text \<open>The transaction with the two wallets.\<close>

lemma encodeLogAction_intent:
  "\<exists>d. encodeLogAction (intentTag i) None = Inr d"
  by (simp add: encodeLogAction_def Let_def strip0x_def startsWith_def)

lemma sendGameTx_readyWallet:
  "sendGameTx readyWallet i s = (True, showToast (PreTx i) (s\<lparr>chainId := ''0x2105''\<rparr>))"
proof -
  obtain d where d: "encodeLogAction (intentTag i) None = Inr d"
    using encodeLogAction_intent by blast
  have g: "isLikelyAddress GAME_CONTRACT" by code_simp
  have b: "BUILDER_CODE \<noteq> []" by (simp add: BUILDER_CODE_def)
  have e: "ensureBase readyWallet s = (True, s\<lparr>chainId := ''0x2105''\<rparr>)"
    by (simp add: ensureBase_def readyWallet_def getChainId_def startsWith_def BASE_MAINNET_def)
  show ?thesis
    using d g b e
    by (simp add: sendGameTx_def readyWallet_def requestAccounts_def Let_def)
qed

lemma sendGameTx_decliningWallet:
  "sendGameTx decliningWallet i s = (False, showToast CanceledInWallet (s\<lparr>chainId := ''0x2105''\<rparr>))"
proof -
  obtain d where d: "encodeLogAction (intentTag i) None = Inr d"
    using encodeLogAction_intent by blast
  have g: "isLikelyAddress GAME_CONTRACT" by code_simp
  have b: "BUILDER_CODE \<noteq> []" by (simp add: BUILDER_CODE_def)
  have e: "ensureBase decliningWallet s = (True, s\<lparr>chainId := ''0x2105''\<rparr>)"
    by (simp add: ensureBase_def decliningWallet_def readyWallet_def getChainId_def startsWith_def
          BASE_MAINNET_def)
  have c: "strIncludes (toLowerCase ''User rejected the request.'') ''user rejected''"
    by code_simp
  show ?thesis
    using d g b e c
    by (simp add: sendGameTx_def decliningWallet_def readyWallet_def requestAccounts_def Let_def
          txCaught_def showToast_def del: strIncludes.simps)
qed

text \<open>The state after connecting the first wallet to the page with an empty store, and
  after planting then.\<close>

lemma connect_readyWallet:
  "account (connect readyWallet now (initialApp Map.empty))
      = ''0x5eC6AF0798b25C563B102d3469971f1a8d598121''
   \<and> local (connect readyWallet now (initialApp Map.empty)) = zeroState"
  by (simp add: connect_def readyWallet_def requestAccounts_def getChainId_def startsWith_def
        initialApp_def accountEffect_def Let_def loadState_def zeroState_def
        computeMissedStreak_def)

lemma plant_readyWallet:
  "account (plant readyWallet t1 t2 (connect readyWallet now (initialApp Map.empty)))
      = ''0x5eC6AF0798b25C563B102d3469971f1a8d598121''
   \<and> local (plant readyWallet t1 t2 (connect readyWallet now (initialApp Map.empty)))
      = \<lparr>plantedAt = Some (Num t1), growth = Num 1, lastWateredAt = Some (Num t2),
         missedStreak = Num 0, revivedAt = None, lastGraftedAt = None\<rparr>"
  using connect_readyWallet[of now]
  by (simp add: plant_def sendGameTx_readyWallet showToast_def planted_def zeroState_def Let_def)


subsection \<open>Persistence and the growth invariant\<close>

text \<open>What \<open>loadState\<close> reads in the record \<open>saveState\<close> wrote: a finite number as it
  was, and nothing where the number was not finite.\<close>

lemma map_of_optionalMember:
  "map_of (rev (optionalMember k' v)) k = (if k = k' then map_option jsonOfNumber v else None)"
  by (simp add: optionalMember_def split: option.splits)

lemma numberField_stringify_plantedAt:
  "numberField (stringify st) ''plantedAt'' =
     (case plantedAt st of Some (Num q) \<Rightarrow> Some (Num q) | _ \<Rightarrow> None)"
  by (simp add: numberField_def stringify_def map_of_optionalMember map_add_def jsonOfNumber_def
           split: option.splits jsnum.splits)

lemma numberField_stringify_growth:
  "numberField (stringify st) ''growth'' =
     (case LocalState.growth st of Num q \<Rightarrow> Some (Num q) | _ \<Rightarrow> None)"
  by (simp add: numberField_def stringify_def map_of_optionalMember map_add_def jsonOfNumber_def
           split: option.splits jsnum.splits)

lemma numberField_stringify_lastWateredAt:
  "numberField (stringify st) ''lastWateredAt'' =
     (case lastWateredAt st of Some (Num q) \<Rightarrow> Some (Num q) | _ \<Rightarrow> None)"
  by (simp add: numberField_def stringify_def map_of_optionalMember map_add_def jsonOfNumber_def
           split: option.splits jsnum.splits)

lemma numberField_stringify_lastGraftedAt:
  "numberField (stringify st) ''lastGraftedAt'' =
     (case lastGraftedAt st of Some (Num q) \<Rightarrow> Some (Num q) | _ \<Rightarrow> None)"
  by (simp add: numberField_def stringify_def map_of_optionalMember map_add_def jsonOfNumber_def
           split: option.splits jsnum.splits)

lemma stringify_not_null: "stringify st \<noteq> JNull"
  by (simp add: stringify_def)

lemma loadState_saveState_same:
  "loadState addr (saveState addr st sigma) =
     \<lparr>plantedAt = numberField (stringify st) ''plantedAt'',
      growth = (case numberField (stringify st) ''growth'' of Some n \<Rightarrow> n | None \<Rightarrow> Num 0),
      lastWateredAt = numberField (stringify st) ''lastWateredAt'',
      missedStreak = (case numberField (stringify st) ''missedStreak'' of Some n \<Rightarrow> n | None \<Rightarrow> Num 0),
      revivedAt = numberField (stringify st) ''revivedAt'',
      lastGraftedAt = numberField (stringify st) ''lastGraftedAt''\<rparr>"
  by (simp add: loadState_def saveState_def stringify_def)

lemma recordInvariant_stringify:
  "growthInvariant st \<Longrightarrow> recordInvariant (stringify st)"
  by (auto simp: growthInvariant_def recordInvariant_def numberField_stringify_plantedAt
        numberField_stringify_growth split: option.splits jsnum.splits)

lemma storeInvariant_saveState:
  "storeInvariant sigma \<Longrightarrow> growthInvariant st \<Longrightarrow> storeInvariant (saveState addr st sigma)"
  by (simp add: storeInvariant_def saveState_def recordInvariant_stringify)

lemma loadState_absent:
  "sigma (lsKey addr) = None \<or> sigma (lsKey addr) = Some Unparsable \<Longrightarrow>
     loadState addr sigma = zeroState"
  by (auto simp: loadState_def)

lemma growthInvariant_zeroState: "growthInvariant zeroState"
  by (simp add: growthInvariant_def zeroState_def)

lemma growthInvariant_loadState:
  assumes "storeInvariant sigma"
  shows "growthInvariant (loadState addr sigma)"
proof (cases "sigma (lsKey addr)")
  case None
  then show ?thesis by (simp add: loadState_def growthInvariant_zeroState)
next
  case (Some it)
  show ?thesis
  proof (cases it)
    case Unparsable
    then show ?thesis using Some by (simp add: loadState_def growthInvariant_zeroState)
  next
    case (Parsed j)
    then have r: "recordInvariant j" using assms Some by (simp add: storeInvariant_def)
    show ?thesis
    proof (cases "j = JNull")
      case True
      then show ?thesis using Some Parsed by (simp add: loadState_def growthInvariant_zeroState)
    next
      case False
      then have "loadState addr sigma =
         \<lparr>plantedAt = numberField j ''plantedAt'',
          growth = (case numberField j ''growth'' of Some n \<Rightarrow> n | None \<Rightarrow> Num 0),
          lastWateredAt = numberField j ''lastWateredAt'',
          missedStreak = (case numberField j ''missedStreak'' of Some n \<Rightarrow> n | None \<Rightarrow> Num 0),
          revivedAt = numberField j ''revivedAt'',
          lastGraftedAt = numberField j ''lastGraftedAt''\<rparr>"
        using Some Parsed by (cases j) (simp_all add: loadState_def)
      then show ?thesis
        using r by (auto simp: growthInvariant_def recordInvariant_def split: option.splits jsnum.splits)
    qed
  qed
qed

text \<open>Each action keeps the invariant of the game state and of the store.\<close>

lemma plant_invariant:
  assumes "growthInvariant (local s)" "storeInvariant (store s)"
  shows "growthInvariant (local (plant w t1 t2 s)) \<and> storeInvariant (store (plant w t1 t2 s))"
proof -
  obtain ok s1 where tx: "sendGameTx w Plant s = (ok, s1)" by (metis prod.exhaust)
  note f = sendGameTx_frame[OF tx]
  have n: "growthInvariant \<lparr>plantedAt = Some (Num t1), growth = Num 1, lastWateredAt = Some (Num t2),
                     missedStreak = Num 0, revivedAt = None, lastGraftedAt = None\<rparr>"
    by (simp add: growthInvariant_def)
  show ?thesis
    using assms tx f n
    by (simp add: plant_def showToast_def Let_def storeInvariant_saveState)
qed

lemma growthInvariant_water:
  assumes "growthInvariant st" "planted st"
  shows "growthInvariant (st\<lparr>LocalState.growth := growthAfterWater (LocalState.growth st),
                               lastWateredAt := Some (Num t), missedStreak := Num 0\<rparr>)"
proof -
  have "plantedAt st \<noteq> None" using assms(2) by (auto simp: planted_def split: option.splits)
  then obtain g where g: "LocalState.growth st = Num g" "1 \<le> g"
    using assms(1) by (auto simp: growthInvariant_def split: jsnum.splits)
  have "growthAfterWater (Num g) = Num (toDouble (g + 1))"
    using g(2) by (simp add: growthAfterWater_def orElse_def truthy_def)
  then show ?thesis using g toDouble_succ_ge_1[OF g(2)] by (simp add: growthInvariant_def)
qed

lemma water_invariant:
  assumes "growthInvariant (local s)" "storeInvariant (store s)"
  shows "growthInvariant (local (water w t1 t2 t3 s)) \<and> storeInvariant (store (water w t1 t2 t3 s))"
proof -
  obtain ok s1 where tx: "sendGameTx w Water s = (ok, s1)" by (metis prod.exhaust)
  note f = sendGameTx_frame[OF tx]
  note n = growthInvariant_water[OF assms(1), of t3]
  show ?thesis
    using assms tx f n
    by (simp add: water_def showToast_def Let_def storeInvariant_saveState)
qed

lemma revive_invariant:
  assumes "growthInvariant (local s)" "storeInvariant (store s)"
  shows "growthInvariant (local (revive w t1 t2 s)) \<and> storeInvariant (store (revive w t1 t2 s))"
proof -
  obtain ok s1 where tx: "sendGameTx w Revive s = (ok, s1)" by (metis prod.exhaust)
  note f = sendGameTx_frame[OF tx]
  have n: "growthInvariant ((local s)\<lparr>missedStreak := Num 0, revivedAt := Some (Num t1),
                                      lastWateredAt := Some (Num t2)\<rparr>)"
    using assms(1) by (simp add: growthInvariant_def)
  show ?thesis
    using assms tx f n
    by (simp add: revive_def showToast_def Let_def storeInvariant_saveState)
qed

lemma graft_invariant:
  assumes "growthInvariant (local s)" "storeInvariant (store s)"
  shows "growthInvariant (local (graft w t s)) \<and> storeInvariant (store (graft w t s))"
proof -
  let ?s0 = "s\<lparr>friendHueState := Some (hueOf (trim (friendAddress s)))\<rparr>"
  obtain ok s1 where tx: "sendGameTx w Graft ?s0 = (ok, s1)" by (metis prod.exhaust)
  note f = sendGameTx_frame[OF tx]
  have n: "growthInvariant ((local s)\<lparr>lastGraftedAt := Some (Num t)\<rparr>)"
    using assms(1) by (simp add: growthInvariant_def)
  show ?thesis
    using assms tx f n
    by (simp add: graft_def showToast_def Let_def storeInvariant_saveState)
qed

lemma accountEffect_invariant:
  assumes "growthInvariant (local s)" "storeInvariant (store s)"
  shows "growthInvariant (local (accountEffect now s)) \<and> storeInvariant (store (accountEffect now s))"
proof -
  have l: "growthInvariant (loadState (account s) (store s))"
    using growthInvariant_loadState[OF assms(2)] .
  then have m: "growthInvariant ((loadState (account s) (store s))\<lparr>missedStreak :=
       computeMissedStreak now (loadState (account s) (store s))\<rparr>)"
    by (simp add: growthInvariant_def)
  show ?thesis
    using assms m by (simp add: accountEffect_def Let_def storeInvariant_saveState)
qed

lemma connect_invariant:
  assumes "growthInvariant (local s)" "storeInvariant (store s)"
  shows "growthInvariant (local (connect w now s)) \<and> storeInvariant (store (connect w now s))"
proof -
  have a: "\<And>s'. local s' = local s \<Longrightarrow> store s' = store s \<Longrightarrow>
     growthInvariant (local (accountEffect now s')) \<and> storeInvariant (store (accountEffect now s'))"
    using accountEffect_invariant assms by simp
  show ?thesis
    using assms
    by (auto simp: connect_def showToast_def Let_def a split: sum.splits if_splits)
qed

lemma reachable_invariant:
  assumes "storeInvariant store0" and "reachable store0 s"
  shows "growthInvariant (local s) \<and> storeInvariant (store s)"
  using assms(2)
proof (induction rule: reachable.induct)
  case start
  show ?case using assms(1) by (simp add: initialApp_def growthInvariant_zeroState)
next
  case (connects s w now)
  then show ?case using connect_invariant by blast
next
  case (plants s w t1 t2)
  then show ?case using plant_invariant by blast
next
  case (waters s w t1 t2 t3)
  then show ?case using water_invariant by blast
next
  case (revives s w t1 t2)
  then show ?case using revive_invariant by blast
next
  case (grafts s w t)
  then show ?case using graft_invariant by blast
next
  case (types s a)
  then show ?case by simp
qed

text \<open>
  C3 (as amended). Take a store in which every record that has a number for
  \<open>plantedAt\<close> has a finite number of at least 1 for \<open>growth\<close> (the empty store is
  one). In every state the component reaches from it by connecting, planting, watering,
  reviving, grafting and typing: the game state has \<open>plantedAt\<close> set only with a finite
  \<open>growth \<ge> 1\<close>; so has the state \<open>loadState\<close> returns for any address from the store of
  that state; \<open>loadState\<close> returns the zero state where the store has no record or one
  that does not parse; and the records of the store are again as assumed.
\<close>

theorem growthInvariant_reachable:
  assumes "storeInvariant store0" and "reachable store0 s"
  shows "(plantedAt (local s) \<noteq> None \<longrightarrow>
            (\<exists>g. LocalState.growth (local s) = Num g \<and> 1 \<le> g))
     \<and> (\<forall>addr. plantedAt (loadState addr (store s)) \<noteq> None \<longrightarrow>
            (\<exists>g. LocalState.growth (loadState addr (store s)) = Num g \<and> 1 \<le> g))
     \<and> (\<forall>addr. store s (lsKey addr) = None \<or> store s (lsKey addr) = Some Unparsable \<longrightarrow>
            loadState addr (store s) = zeroState \<and> plantedAt (loadState addr (store s)) = None)
     \<and> storeInvariant (store s)"
proof -
  have i: "growthInvariant (local s)" "storeInvariant (store s)"
    using reachable_invariant[OF assms] by simp_all
  have g: "plantedAt st \<noteq> None \<longrightarrow> (\<exists>g. LocalState.growth st = Num g \<and> 1 \<le> g)"
    if "growthInvariant st" for st
    using that by (auto simp: growthInvariant_def split: jsnum.splits)
  have l: "growthInvariant (loadState addr (store s))" for addr
    using growthInvariant_loadState[OF i(2)] .
  have z: "loadState addr (store s) = zeroState \<and> plantedAt (loadState addr (store s)) = None"
    if "store s (lsKey addr) = None \<or> store s (lsKey addr) = Some Unparsable" for addr
    using loadState_absent[where sigma="store s" and addr=addr] that by (simp add: zeroState_def)
  show ?thesis using g[OF i(1)] g[OF l] z i(2) by blast
qed

text \<open>The theorem for C3 at the state reached from the empty store by connecting and
  planting: it is planted, with growth 1, and so is the state loaded from its store.\<close>

theorem growthInvariant_reachable_witness:
  "storeInvariant Map.empty
   \<and> reachable Map.empty
       (plant readyWallet 1700000000000 1700000000000
          (connect readyWallet 1699999999000 (initialApp Map.empty)))
   \<and> plantedAt (local (plant readyWallet 1700000000000 1700000000000
          (connect readyWallet 1699999999000 (initialApp Map.empty)))) = Some (Num 1700000000000)
   \<and> (\<exists>g. LocalState.growth (local (plant readyWallet 1700000000000 1700000000000
          (connect readyWallet 1699999999000 (initialApp Map.empty)))) = Num g \<and> 1 \<le> g)
   \<and> storeInvariant (store (plant readyWallet 1700000000000 1700000000000
          (connect readyWallet 1699999999000 (initialApp Map.empty))))"
proof -
  let ?s1 = "connect readyWallet 1699999999000 (initialApp Map.empty)"
  let ?s2 = "plant readyWallet 1700000000000 1700000000000 ?s1"
  have e: "storeInvariant Map.empty"
    by (simp add: storeInvariant_def)
  have r: "reachable Map.empty ?s2"
    by (intro reachable.plants reachable.connects reachable.start)
  have p: "plantedAt (local ?s2) = Some (Num 1700000000000)"
    using plant_readyWallet[of 1700000000000 1700000000000 1699999999000] by simp
  from growthInvariant_reachable[OF e r] e r p show ?thesis by auto
qed

text \<open>
  C3 as stated fails for \<open>loadState\<close> on arbitrary stored data: from the stored text
  \<open>{"plantedAt": 1700000000000, "growth": 0}\<close> it returns a state with \<open>plantedAt\<close> set
  and \<open>growth = 0\<close>, and that is the game state after connecting. \<open>loadState\<close> checks the
  type of each field and nothing else.
\<close>

theorem loadState_breaks_growthInvariant:
  "(let sigma = Map.empty(lsKey ''0x5eC6AF0798b25C563B102d3469971f1a8d598121'' \<mapsto>
         Parsed (JObj [(''plantedAt'', JNum (Num 1700000000000)), (''growth'', JNum (Num 0))]));
        st = loadState ''0x5eC6AF0798b25C563B102d3469971f1a8d598121'' sigma
    in plantedAt st = Some (Num 1700000000000)
     \<and> LocalState.growth st = Num 0
     \<and> \<not> growthInvariant st
     \<and> plantedAt (local (connect readyWallet 1700000100000 (initialApp sigma)))
         = Some (Num 1700000000000)
     \<and> LocalState.growth (local (connect readyWallet 1700000100000 (initialApp sigma))) = Num 0)"
  by (simp add: Let_def loadState_def numberField_def growthInvariant_def
        connect_def readyWallet_def requestAccounts_def getChainId_def startsWith_def
        initialApp_def accountEffect_def computeMissedStreak_def)

text \<open>The records need a finite \<open>growth\<close>: the stored text
  \<open>{"plantedAt": 1700000000000, "growth": 1e400}\<close> loads with an infinite \<open>growth\<close>,
  which \<open>saveState\<close> writes as \<open>null\<close>; the state loaded from what was saved has
  \<open>plantedAt\<close> set and \<open>growth = 0\<close>.\<close>

lemma loadState_infinite_growth:
  "(let sigma = Map.empty(lsKey ''0x5eC6AF0798b25C563B102d3469971f1a8d598121'' \<mapsto>
         Parsed (JObj [(''plantedAt'', JNum (Num 1700000000000)), (''growth'', JNum Infinity)]));
        st = loadState ''0x5eC6AF0798b25C563B102d3469971f1a8d598121'' sigma;
        st' = loadState ''0x5eC6AF0798b25C563B102d3469971f1a8d598121''
                (saveState ''0x5eC6AF0798b25C563B102d3469971f1a8d598121'' st sigma)
    in plantedAt st = Some (Num 1700000000000) \<and> LocalState.growth st = Infinity
     \<and> plantedAt st' = Some (Num 1700000000000) \<and> LocalState.growth st' = Num 0)"
  by (simp add: Let_def loadState_saveState_same numberField_stringify_plantedAt
        numberField_stringify_growth)
     (simp add: loadState_def numberField_def)


subsection \<open>Watering\<close>


text \<open>The gate of \<open>canWater\<close>, written out: an unset \<open>lastWateredAt\<close>, and one that is 0
  or NaN, count as long ago.\<close>

lemma canWater_elapsed:
  "canWater t st =
     (case lastWateredAt st of
        None \<Rightarrow> True
      | Some n \<Rightarrow> (case n of Num t0 \<Rightarrow> t0 = 0 \<or> 1 \<le> (t - t0) / 3600000
                   | Infinity \<Rightarrow> False | NegInfinity \<Rightarrow> True | NaN \<Rightarrow> True))"
  by (simp add: canWater_def hoursSince_def truthy_def jsGe_def split: option.splits jsnum.splits)






text \<open>
  C9. When \<open>water()\<close> is stopped by the cooldown, \<open>lastWateredAt\<close> is set and less than
  one hour before; the state after is the state before with one change, the toast, and
  the toast reports \<open>max(0, 24 - hoursSince(lastWateredAt))\<close> hours (shown with one
  decimal). The wallet is not asked. The one other state the cooldown stops is a
  \<open>lastWateredAt\<close> that is infinite (read from the store): \<open>hoursSince\<close> is then the
  negative infinity, and the toast reports an infinite wait, again the state's one change.
\<close>

theorem water_cooldown_report:
  "account s \<noteq> [] \<Longrightarrow> planted (local s) \<Longrightarrow> \<not> canWater tGate (local s) \<Longrightarrow>
     (\<exists>t0. lastWateredAt (local s) = Some (Num t0) \<and> (tGate - t0) / 3600000 < 1
        \<and> hoursSince tMessage (lastWateredAt (local s)) = Num ((tMessage - t0) / 3600000)
        \<and> water w tGate tMessage tCommit s =
            s\<lparr>toastMsg := Some (WaterReadyIn (Num (max 0 (24 - (tMessage - t0) / 3600000))))\<rparr>)
     \<or> (lastWateredAt (local s) = Some Infinity
        \<and> hoursSince tMessage (lastWateredAt (local s)) = NegInfinity
        \<and> water w tGate tMessage tCommit s = s\<lparr>toastMsg := Some (WaterReadyIn Infinity)\<rparr>)"
  by (auto simp: water_def canWater_def hoursSince_def remainingWait_def showToast_def
           truthy_def jsGe_def
           split: option.splits if_splits jsnum.splits)

text \<open>The theorem for C9 thirty minutes after watering: the toast reports 23.5 hours.\<close>

theorem water_cooldown_report_witness:
  "\<not> canWater 1700001800000 (zeroState\<lparr>plantedAt := Some (Num 1700000000000), LocalState.growth := Num 1,
                      lastWateredAt := Some (Num 1700000000000)\<rparr>)
   \<and> water readyWallet 1700001800000 1700001800000 1700001801100
        ((initialApp Map.empty)\<lparr>account := ''0x5eC6AF0798b25C563B102d3469971f1a8d598121'',
           local := zeroState\<lparr>plantedAt := Some (Num 1700000000000), LocalState.growth := Num 1,
                      lastWateredAt := Some (Num 1700000000000)\<rparr>\<rparr>)
     = (initialApp Map.empty)\<lparr>account := ''0x5eC6AF0798b25C563B102d3469971f1a8d598121'',
           local := zeroState\<lparr>plantedAt := Some (Num 1700000000000), LocalState.growth := Num 1,
                      lastWateredAt := Some (Num 1700000000000)\<rparr>,
           toastMsg := Some (WaterReadyIn (Num (47 / 2)))\<rparr>"
proof -
  let ?st = "zeroState\<lparr>plantedAt := Some (Num 1700000000000), LocalState.growth := Num 1,
                      lastWateredAt := Some (Num 1700000000000)\<rparr>"
  let ?s = "(initialApp Map.empty)\<lparr>account := ''0x5eC6AF0798b25C563B102d3469971f1a8d598121'',
           local := ?st\<rparr>"
  have a: "account ?s \<noteq> []" by (simp add: initialApp_def)
  have p: "planted (local ?s)" by (simp add: planted_def zeroState_def truthy_def)
  have c: "\<not> canWater 1700001800000 (local ?s)"
    by (simp add: canWater_elapsed zeroState_def)
  have l: "lastWateredAt (local ?s) = Some (Num 1700000000000)" by (simp add: zeroState_def)
  from water_cooldown_report[OF a p c, where w=readyWallet and tMessage=1700001800000
         and tCommit=1700001801100] l
  have "water readyWallet 1700001800000 1700001800000 1700001801100 ?s =
          ?s\<lparr>toastMsg := Some (WaterReadyIn (Num (max 0 (24 - (1700001800000 - 1700000000000) / 3600000))))\<rparr>"
    by auto
  then show ?thesis using c by simp
qed


subsection \<open>Grafting\<close>

lemma hashToUnitFloat_address:
  assumes "isLikelyAddress addr"
  shows "\<exists>n. hashToUnitFloat addr = Num (of_int n / 1000000) \<and> 0 \<le> n \<and> n < 1000000"
proof -
  have h: "list_all isHexChar (drop 2 addr)" using assms by (simp add: isLikelyAddress_def)
  have "addr = take 2 addr @ drop 2 addr" by simp
  then have "addr = ''0x'' @ drop 2 addr" using assms unfolding isLikelyAddress_def by metis
  then have "strip0x addr = drop 2 addr" using strip0x_prefixed by metis
  from hashToUnitFloat_clean[OF h this]
  have "hashToUnitFloat addr = Num (of_int (hexValue (take 12 (drop 2 addr)) mod 1000000) / 1000000)" .
  moreover have "0 \<le> hexValue (take 12 (drop 2 addr)) mod 1000000" by simp
  moreover have "hexValue (take 12 (drop 2 addr)) mod 1000000 < 1000000" by simp
  ultimately show ?thesis by blast
qed

lemma hueOf_address:
  assumes "isLikelyAddress addr"
  shows "\<exists>q. hashToUnitFloat addr = Num q \<and> 0 \<le> q \<and> q < 1
           \<and> hueOf addr = Num (of_int \<lfloor>toDouble (toDouble q * 360)\<rfloor>)
           \<and> 0 \<le> \<lfloor>toDouble (toDouble q * 360)\<rfloor> \<and> \<lfloor>toDouble (toDouble q * 360)\<rfloor> < 360"
proof -
  obtain n where n: "hashToUnitFloat addr = Num (of_int n / 1000000)" "0 \<le> n" "n < 1000000"
    using hashToUnitFloat_address[OF assms] by blast
  let ?q = "(of_int n / 1000000 :: rat)"
  have lo: "0 \<le> ?q" using n(2) by simp
  have "n \<le> 999999" using n(3) by simp
  then have "(of_int n :: rat) \<le> of_int 999999" by (simp only: of_int_le_iff)
  then have hi: "?q \<le> 999999 / 1000000" by simp
  then have lt: "?q < 1" by simp
  have h: "hueOf addr = Num (of_int \<lfloor>toDouble (toDouble ?q * 360)\<rfloor>)"
    using n(1) by (simp add: hueOf_def)
  show ?thesis using n(1) lo lt h hue_range[OF lo hi] by blast
qed

text \<open>
  C10. For a connected account, a planted state and a friend address that is, once
  trimmed, an address: \<open>hashToUnitFloat\<close> of it is a number \<open>q\<close> in [0,1); the hue is
  \<open>floor(q * 360)\<close>, computed in doubles, an integer in [0,360); \<open>graft()\<close> sets it in
  \<open>friendHue\<close>, the state every frame hands to the renderer, before it calls
  \<open>sendGameTx\<close>, so it is set whatever the transaction does; \<open>lastGraftedAt\<close> is set and
  saved when the transaction succeeds, which needs the wallet to have accepted the
  call, and otherwise the game state and the store are unchanged.
\<close>

theorem graft_hue_before_transaction:
  assumes "account s \<noteq> []" and "planted (local s)" and "isLikelyAddress (trim (friendAddress s))"
  shows "\<exists>q h. hashToUnitFloat (trim (friendAddress s)) = Num q \<and> 0 \<le> q \<and> q < 1
     \<and> h = \<lfloor>toDouble (toDouble q * 360)\<rfloor> \<and> 0 \<le> h \<and> h < 360
     \<and> graft w t s =
         (if fst (sendGameTx w Graft (s\<lparr>friendHueState := Some (Num (of_int h))\<rparr>)) then
            showToast Grafted
              ((snd (sendGameTx w Graft (s\<lparr>friendHueState := Some (Num (of_int h))\<rparr>)))
                 \<lparr>local := (local s)\<lparr>lastGraftedAt := Some (Num t)\<rparr>,
                  store := saveState (account s) ((local s)\<lparr>lastGraftedAt := Some (Num t)\<rparr>) (store s)\<rparr>)
          else snd (sendGameTx w Graft (s\<lparr>friendHueState := Some (Num (of_int h))\<rparr>)))
     \<and> friendHueState (graft w t s) = Some (Num (of_int h))
     \<and> (fst (sendGameTx w Graft (s\<lparr>friendHueState := Some (Num (of_int h))\<rparr>)) \<longrightarrow>
          (\<exists>call. sendCallsReply w call = Inr () \<and> target call = GAME_CONTRACT)
          \<and> local (graft w t s) = (local s)\<lparr>lastGraftedAt := Some (Num t)\<rparr>
          \<and> store (graft w t s) = saveState (account s) ((local s)\<lparr>lastGraftedAt := Some (Num t)\<rparr>) (store s)
          \<and> lastGraftedAt (loadState (account s) (store (graft w t s))) = Some (Num t))
     \<and> (\<not> fst (sendGameTx w Graft (s\<lparr>friendHueState := Some (Num (of_int h))\<rparr>)) \<longrightarrow>
          local (graft w t s) = local s \<and> store (graft w t s) = store s)"
proof -
  obtain q where q: "hashToUnitFloat (trim (friendAddress s)) = Num q" "0 \<le> q" "q < 1"
      and hq: "hueOf (trim (friendAddress s)) = Num (of_int \<lfloor>toDouble (toDouble q * 360)\<rfloor>)"
      and r: "0 \<le> \<lfloor>toDouble (toDouble q * 360)\<rfloor>" "\<lfloor>toDouble (toDouble q * 360)\<rfloor> < 360"
    using hueOf_address[OF assms(3)] by blast
  define h where "h = \<lfloor>toDouble (toDouble q * 360)\<rfloor>"
  have h: "hueOf (trim (friendAddress s)) = Num (of_int h)" "0 \<le> h" "h < 360"
    using hq r by (simp_all add: h_def)
  let ?s0 = "s\<lparr>friendHueState := Some (Num (of_int h))\<rparr>"
  let ?next = "(local s)\<lparr>lastGraftedAt := Some (Num t)\<rparr>"
  obtain ok s1 where tx: "sendGameTx w Graft ?s0 = (ok, s1)" by (metis prod.exhaust)
  note f = sendGameTx_frame[OF tx]
  have sent: "\<exists>call. sendCallsReply w call = Inr () \<and> target call = GAME_CONTRACT" if "ok"
  proof -
    have "sendGameTx w Graft ?s0 = (True, s1)" using tx that by simp
    from sendGameTx_sent[OF this] show ?thesis by blast
  qed
  have g: "graft w t s =
         (if ok then
            showToast Grafted
              (s1\<lparr>local := ?next, store := saveState (account s) ?next (store s)\<rparr>)
          else s1)"
    using assms h(1) tx f by (simp add: graft_def Let_def)
  have rb: "lastGraftedAt (loadState (account s) (saveState (account s) ?next (store s))) = Some (Num t)"
    by (simp add: loadState_saveState_same numberField_stringify_lastGraftedAt)
  have body: "graft w t s =
         (if fst (sendGameTx w Graft ?s0) then
            showToast Grafted
              ((snd (sendGameTx w Graft ?s0))
                 \<lparr>local := ?next, store := saveState (account s) ?next (store s)\<rparr>)
          else snd (sendGameTx w Graft ?s0))
     \<and> friendHueState (graft w t s) = Some (Num (of_int h))
     \<and> (fst (sendGameTx w Graft ?s0) \<longrightarrow>
          (\<exists>call. sendCallsReply w call = Inr () \<and> target call = GAME_CONTRACT)
          \<and> local (graft w t s) = ?next
          \<and> store (graft w t s) = saveState (account s) ?next (store s)
          \<and> lastGraftedAt (loadState (account s) (store (graft w t s))) = Some (Num t))
     \<and> (\<not> fst (sendGameTx w Graft ?s0) \<longrightarrow>
          local (graft w t s) = local s \<and> store (graft w t s) = store s)"
    using g tx f sent rb by (simp add: showToast_def)
  from q h(2,3) h_def body show ?thesis by blast
qed

text \<open>The theorem for C10 with a user who rejects the call, at a friend's address whose
  leading digits give 0.175: the hue 62 is set (the exact product with 360 is 63, the
  product of the doubles is below it), and the game state is as before.\<close>

theorem graft_hue_before_transaction_witness:
  "hashToUnitFloat (trim (friendAddress
      ((initialApp Map.empty)\<lparr>account := ''0xB331328F506f2D35125e367A190e914B1b6830cF'',
         local := zeroState\<lparr>plantedAt := Some (Num 1700000000000), LocalState.growth := Num 1\<rparr>,
         friendAddress := '' 0x00000002ab980000000000000000000000000000 ''\<rparr>))) = Num (175 / 1000)
   \<and> \<lfloor>toDouble (toDouble (175 / 1000) * 360)\<rfloor> = 62
   \<and> friendHueState (graft decliningWallet 1700000005000
      ((initialApp Map.empty)\<lparr>account := ''0xB331328F506f2D35125e367A190e914B1b6830cF'',
         local := zeroState\<lparr>plantedAt := Some (Num 1700000000000), LocalState.growth := Num 1\<rparr>,
         friendAddress := '' 0x00000002ab980000000000000000000000000000 ''\<rparr>)) = Some (Num 62)
   \<and> local (graft decliningWallet 1700000005000
      ((initialApp Map.empty)\<lparr>account := ''0xB331328F506f2D35125e367A190e914B1b6830cF'',
         local := zeroState\<lparr>plantedAt := Some (Num 1700000000000), LocalState.growth := Num 1\<rparr>,
         friendAddress := '' 0x00000002ab980000000000000000000000000000 ''\<rparr>))
     = zeroState\<lparr>plantedAt := Some (Num 1700000000000), LocalState.growth := Num 1\<rparr>"
proof -
  let ?s = "(initialApp Map.empty)\<lparr>account := ''0xB331328F506f2D35125e367A190e914B1b6830cF'',
         local := zeroState\<lparr>plantedAt := Some (Num 1700000000000), LocalState.growth := Num 1\<rparr>,
         friendAddress := '' 0x00000002ab980000000000000000000000000000 ''\<rparr>"
  have a: "account ?s \<noteq> []" by (simp add: initialApp_def)
  have p: "planted (local ?s)" by (simp add: planted_def zeroState_def truthy_def)
  have tr: "trim (friendAddress ?s) = ''0x00000002ab980000000000000000000000000000''"
    by (simp add: trim_def isWhiteSpace_def)
  have v: "isLikelyAddress (trim (friendAddress ?s))" unfolding tr by code_simp
  have hf: "hashToUnitFloat (trim (friendAddress ?s)) = Num (175 / 1000)" unfolding tr by code_simp
  have fl: "\<lfloor>toDouble (toDouble (175 / 1000) * 360)\<rfloor> = 62" by code_simp
  from graft_hue_before_transaction[OF a p v, where w=decliningWallet and t=1700000005000]
  obtain q h where q: "hashToUnitFloat (trim (friendAddress ?s)) = Num q"
     and h: "h = \<lfloor>toDouble (toDouble q * 360)\<rfloor>"
     and fh: "friendHueState (graft decliningWallet 1700000005000 ?s) = Some (Num (of_int h))"
     and un: "\<not> fst (sendGameTx decliningWallet Graft (?s\<lparr>friendHueState := Some (Num (of_int h))\<rparr>)) \<longrightarrow>
          local (graft decliningWallet 1700000005000 ?s) = local ?s"
    by blast
  have "Num q = Num (175 / 1000)" using q hf by (rule trans[OF sym])
  then have qe: "q = 175 / 1000" by (simp only: jsnum.inject)
  have h62: "h = 62" unfolding h qe by (rule fl)
  have "local (graft decliningWallet 1700000005000 ?s) = local ?s"
    using un by (simp add: sendGameTx_decliningWallet)
  then show ?thesis using hf fl fh h62 by simp
qed

end
